theory Spec2Isabelle
  imports Main "HOL-Library.Word" "HOL-Library.Multiset"
begin

unbundle bit_operations_syntax

section \<open>tuple\_vector: a structure-of-arrays container\<close>

text \<open>
  The development embeds the \<open>std_tuple_vector\<close> variant of \<open>tuple_vector\<close>
  (namespace \<open>TupleVecInternal\<close>): the iterator \<open>TupleVecIter\<close>, the layout helper
  \<open>TupleRecurser\<close>, the column primitive \<open>TupleVecLeaf\<close> and the engine \<open>TupleVecImpl\<close>.

  \<^item> \<open>std::size_t\<close> is a 64-bit word; arithmetic on it wraps.
  \<^item> A pointer value is a natural number, \<open>0\<close> being \<open>nullptr\<close>. Only equality of
    pointers and base-plus-offset are used by the code.
  \<^item> Every column holds values of one type \<open>'v\<close>; the column types \<open>Ts...\<close> enter through
    their \<open>sizeof\<close> and \<open>alignof\<close> only.
\<close>

type_synonym size_type = "64 word"
type_synonym addr = nat

subsection \<open>TupleVecIter\<close>

text \<open>
  \<open>size_type mIndex; const void* mpData[sizeof...(Ts)];\<close>
  The pointer array has one entry per column, so it is never empty.
\<close>

record TupleVecIter =
  mIndex :: size_type
  it_mpData :: "addr list"

text \<open>\<open>operator==\<close> and \<open>operator!=\<close>, each written out as in the source.\<close>

definition iter_eq :: "TupleVecIter \<Rightarrow> TupleVecIter \<Rightarrow> bool" where
  "iter_eq a other \<longleftrightarrow> mIndex a = mIndex other \<and> it_mpData a ! 0 = it_mpData other ! 0"

definition iter_ne :: "TupleVecIter \<Rightarrow> TupleVecIter \<Rightarrow> bool" where
  "iter_ne a other \<longleftrightarrow> mIndex a \<noteq> mIndex other \<or> it_mpData a ! 0 \<noteq> it_mpData other ! 0"

text \<open>\<open>operator+=\<close>, \<open>operator+\<close> (member and friend), \<open>operator-=\<close>, \<open>operator-\<close> and the
  difference of two iterators. \<open>difference_type\<close> is \<open>std::size_t\<close>.\<close>

definition iter_add_assign :: "TupleVecIter \<Rightarrow> size_type \<Rightarrow> TupleVecIter" where
  "iter_add_assign it n = it\<lparr>mIndex := mIndex it + n\<rparr>"

definition iter_plus :: "TupleVecIter \<Rightarrow> size_type \<Rightarrow> TupleVecIter" where
  "iter_plus it n = (let temp = it in iter_add_assign temp n)"

definition plus_iter :: "size_type \<Rightarrow> TupleVecIter \<Rightarrow> TupleVecIter" where
  "plus_iter n rhs = (let temp = rhs in iter_add_assign temp n)"

definition iter_sub_assign :: "TupleVecIter \<Rightarrow> size_type \<Rightarrow> TupleVecIter" where
  "iter_sub_assign it n = it\<lparr>mIndex := mIndex it - n\<rparr>"

definition iter_minus :: "TupleVecIter \<Rightarrow> size_type \<Rightarrow> TupleVecIter" where
  "iter_minus it n = (let temp = it in iter_sub_assign temp n)"

definition iter_diff :: "TupleVecIter \<Rightarrow> TupleVecIter \<Rightarrow> size_type" where
  "iter_diff a rhs = mIndex a - mIndex rhs"

definition iter_less :: "TupleVecIter \<Rightarrow> TupleVecIter \<Rightarrow> bool" where
  "iter_less a rhs \<longleftrightarrow> mIndex a < mIndex rhs"


subsection \<open>TupleRecurser: the layout of the shared allocation\<close>

text \<open>A column type \<open>T\<close> is the pair \<open>(sizeof(T), alignof(T))\<close>.\<close>

type_synonym column_type = "size_type \<times> size_type"

definition CalculatAllocationOffset :: "column_type \<Rightarrow> size_type \<Rightarrow> size_type" where
  "CalculatAllocationOffset T offset = (offset + snd T - 1) AND (NOT (snd T) + 1)"

definition CalculateAllocationSize :: "column_type \<Rightarrow> size_type \<Rightarrow> size_type \<Rightarrow> size_type" where
  "CalculateAllocationSize T offset capacity = CalculatAllocationOffset T offset + fst T * capacity"

fun GetTotalAlignment :: "column_type list \<Rightarrow> size_type" where
  "GetTotalAlignment [] = 0"
| "GetTotalAlignment (T # Ts) = max (snd T) (GetTotalAlignment Ts)"

fun GetTotalAllocationSize :: "column_type list \<Rightarrow> size_type \<Rightarrow> size_type \<Rightarrow> size_type" where
  "GetTotalAllocationSize [] capacity offset = offset"
| "GetTotalAllocationSize (T # Ts) capacity offset =
     GetTotalAllocationSize Ts capacity (CalculateAllocationSize T offset capacity)"

subsection \<open>The allocator\<close>

text \<open>
  The allocator is any object with \<open>allocate\<close> and \<open>deallocate\<close>. Its state is the list of
  live blocks; \<open>pick\<close> chooses the address of a new block and is \<open>None\<close> when the
  allocation fails, which \<open>std::allocator\<close> reports by throwing \<open>std::bad_alloc\<close>.
\<close>

record heap =
  pick :: "addr list \<Rightarrow> size_type \<Rightarrow> addr option"
  live :: "addr list"

definition allocate :: "heap \<Rightarrow> size_type \<Rightarrow> (addr \<times> heap) option" where
  "allocate h n = (case pick h (live h) n of
      None \<Rightarrow> None
    | Some p \<Rightarrow> Some (p, h\<lparr>live := p # live h\<rparr>))"

definition deallocate :: "heap \<Rightarrow> addr \<Rightarrow> size_type \<Rightarrow> heap" where
  "deallocate h p n = h\<lparr>live := removeAll p (live h)\<rparr>"

text \<open>
  \<open>DoAllocate\<close> recurses over the column types. The base case allocates \<open>offset\<close> units, or
  nothing when \<open>capacity\<close> is zero; every other level stores its Leaf pointer
  \<open>ppNewLeaf[I]\<close>. The result is the heap, the pair \<open>(pointer, size)\<close> and \<open>ppNewLeaf\<close>;
  \<open>None\<close> is the exception of a failed allocation.
\<close>

fun DoAllocate :: "heap \<Rightarrow> column_type list \<Rightarrow> size_type \<Rightarrow> size_type
    \<Rightarrow> (heap \<times> (addr \<times> size_type) \<times> addr list) option" where
  "DoAllocate h [] capacity offset =
     (if capacity \<noteq> 0
      then (case allocate h offset of
              None \<Rightarrow> None
            | Some (ptr, h') \<Rightarrow> Some (h', (ptr, offset), []))
      else Some (h, (0, offset), []))"
| "DoAllocate h (T # Ts) capacity offset =
     (let allocationOffset = CalculatAllocationOffset T offset;
          allocationSize = CalculateAllocationSize T offset capacity
      in case DoAllocate h Ts capacity allocationSize of
           None \<Rightarrow> None
         | Some (h', allocation, ppNewLeaf) \<Rightarrow>
             Some (h', allocation, (fst allocation + unat allocationOffset) # ppNewLeaf))"

subsection \<open>Column memory and the standard algorithms\<close>

text \<open>
  A slot of a column array is raw storage or holds a constructed object. An array is
  addressed by the element offset from the pointer it is reached through. Moving from an
  object leaves it constructed; its value is kept here, as for scalar columns.
\<close>

datatype 'v slot = Raw | Obj 'v

type_synonym 'v mem = "nat \<Rightarrow> 'v slot"

definition raw_mem :: "'v mem" where
  "raw_mem = (\<lambda>k. Raw)"

text \<open>\<open>while (first != last) *d_first++ = std::move(*first++);\<close> with \<open>n = last - first\<close>.
  A range with \<open>last\<close> before \<open>first\<close> is undefined in the source and empty here.\<close>

fun move_loop :: "'v mem \<Rightarrow> nat \<Rightarrow> nat \<Rightarrow> nat \<Rightarrow> 'v mem" where
  "move_loop m first d_first 0 = m"
| "move_loop m first d_first (Suc n) = move_loop (m(d_first := m first)) (Suc first) (Suc d_first) n"

definition std_move :: "'v mem \<Rightarrow> nat \<Rightarrow> nat \<Rightarrow> nat \<Rightarrow> 'v mem" where
  "std_move m first last' d_first = move_loop m first d_first (last' - first)"

definition std_uninitialized_move :: "'v mem \<Rightarrow> nat \<Rightarrow> nat \<Rightarrow> nat \<Rightarrow> 'v mem" where
  "std_uninitialized_move m first last' d_first = move_loop m first d_first (last' - first)"

text \<open>The same loop when the destination lies in another array (the new allocation).\<close>

fun move_into_loop :: "'v mem \<Rightarrow> nat \<Rightarrow> 'v mem \<Rightarrow> nat \<Rightarrow> nat \<Rightarrow> 'v mem" where
  "move_into_loop src first dst d_first 0 = dst"
| "move_into_loop src first dst d_first (Suc n) =
     move_into_loop src (Suc first) (dst(d_first := src first)) (Suc d_first) n"

definition std_uninitialized_move_into :: "'v mem \<Rightarrow> nat \<Rightarrow> nat \<Rightarrow> 'v mem \<Rightarrow> nat \<Rightarrow> 'v mem" where
  "std_uninitialized_move_into src first last' dst d_first =
     move_into_loop src first dst d_first (last' - first)"

text \<open>\<open>while (first != last) *(--d_last) = std::move(*(--last));\<close>\<close>

fun move_backward_loop :: "'v mem \<Rightarrow> nat \<Rightarrow> nat \<Rightarrow> nat \<Rightarrow> 'v mem" where
  "move_backward_loop m last' d_last 0 = m"
| "move_backward_loop m last' d_last (Suc n) =
     move_backward_loop (m(d_last - 1 := m (last' - 1))) (last' - 1) (d_last - 1) n"

definition std_move_backward :: "'v mem \<Rightarrow> nat \<Rightarrow> nat \<Rightarrow> nat \<Rightarrow> 'v mem" where
  "std_move_backward m first last' d_last = move_backward_loop m last' d_last (last' - first)"

fun fill_loop :: "'v mem \<Rightarrow> nat \<Rightarrow> 'v \<Rightarrow> nat \<Rightarrow> 'v mem" where
  "fill_loop m first v 0 = m"
| "fill_loop m first v (Suc n) = fill_loop (m(first := Obj v)) (Suc first) v n"

definition std_fill :: "'v mem \<Rightarrow> nat \<Rightarrow> nat \<Rightarrow> 'v \<Rightarrow> 'v mem" where
  "std_fill m first last' v = fill_loop m first v (last' - first)"

definition std_uninitialized_fill :: "'v mem \<Rightarrow> nat \<Rightarrow> nat \<Rightarrow> 'v \<Rightarrow> 'v mem" where
  "std_uninitialized_fill m first last' v = fill_loop m first v (last' - first)"

definition std_uninitialized_fill_n :: "'v mem \<Rightarrow> nat \<Rightarrow> nat \<Rightarrow> 'v \<Rightarrow> 'v mem" where
  "std_uninitialized_fill_n m first n v = fill_loop m first v n"

fun destroy_loop :: "'v mem \<Rightarrow> nat \<Rightarrow> nat \<Rightarrow> 'v mem" where
  "destroy_loop m first 0 = m"
| "destroy_loop m first (Suc n) = destroy_loop (m(first := Raw)) (Suc first) n"

definition std_destroy :: "'v mem \<Rightarrow> nat \<Rightarrow> nat \<Rightarrow> 'v mem" where
  "std_destroy m first last' = destroy_loop m first (last' - first)"

subsection \<open>TupleVecLeaf\<close>

text \<open>
  A Leaf is the typed pointer \<open>T* mpData\<close> of one column. The array it points to is kept
  with it: the sub-regions of the columns do not overlap, so each Leaf reaches an array of
  its own.
\<close>

record 'v TupleVecLeaf =
  leaf_type :: column_type
  leaf_mpData :: addr
  leaf_mem :: "'v mem"

text \<open>\<open>DoUninitializedMoveAndDestruct(begin, end, pDest)\<close>: the destination is an offset
  \<open>d\<close> in the array \<open>dst\<close> of the new allocation. The result is the Leaf with its source
  range destroyed and the destination array.\<close>

definition DoUninitializedMoveAndDestruct ::
    "'v TupleVecLeaf \<Rightarrow> size_type \<Rightarrow> size_type \<Rightarrow> 'v mem \<Rightarrow> nat \<Rightarrow> 'v TupleVecLeaf \<times> 'v mem" where
  "DoUninitializedMoveAndDestruct leaf begin' end' dst d =
     (let pBegin = unat begin';
          pEnd = unat end';
          dst' = std_uninitialized_move_into (leaf_mem leaf) pBegin pEnd dst d
      in (leaf\<lparr>leaf_mem := std_destroy (leaf_mem leaf) pBegin pEnd\<rparr>, dst'))"

definition DoInsertAndFill ::
    "'v TupleVecLeaf \<Rightarrow> size_type \<Rightarrow> size_type \<Rightarrow> size_type \<Rightarrow> 'v \<Rightarrow> 'v TupleVecLeaf" where
  "DoInsertAndFill leaf pos n numElements arg =
     (let pDest = unat pos;
          pDataEnd = unat numElements;
          temp = arg;
          nExtra = numElements - pos
      in if n < nExtra
         then (let m1 = std_uninitialized_move (leaf_mem leaf) (pDataEnd - unat n) pDataEnd pDataEnd;
                   m2 = std_move_backward m1 pDest (pDataEnd - unat n) pDataEnd;
                   m3 = std_fill m2 pDest (pDest + unat n) temp
               in leaf\<lparr>leaf_mem := m3\<rparr>)
         else (let m1 = std_uninitialized_fill_n (leaf_mem leaf) pDataEnd (unat (n - nExtra)) temp;
                   m2 = std_uninitialized_move m1 pDest pDataEnd (pDataEnd + unat n - unat nExtra);
                   m3 = std_fill m2 pDest pDataEnd temp
               in leaf\<lparr>leaf_mem := m3\<rparr>))"

subsection \<open>TupleVecImpl\<close>

text \<open>
  \<open>void* mpData; size_type mNumElements; size_type mNumCapacity;\<close>, the size of the
  allocation \<open>internalDataSize()\<close>, and the Leaves, one per column. The allocator object
  is stateless; the heap it allocates from is passed to the operations that use it.
\<close>

record 'v TupleVecImpl =
  mpData :: addr
  mNumElements :: size_type
  mNumCapacity :: size_type
  internalDataSize :: size_type
  leaves :: "'v TupleVecLeaf list"

text \<open>An operation returns, or leaves by the exception of a failed allocation (the state
  is the one the exception leaves behind), or stops at a failed \<open>assert\<close>. Where an
  operation also returns a value, the value is the last component of \<open>Done\<close>; the same
  component of \<open>BadAlloc\<close> is never handed to a caller and carries no meaning.\<close>

datatype 's outcome = Done 's | BadAlloc 's | AssertFail

definition column_types :: "'v TupleVecImpl \<Rightarrow> column_type list" where
  "column_types st = map leaf_type (leaves st)"

definition tv_size :: "'v TupleVecImpl \<Rightarrow> size_type" where
  "tv_size st = mNumElements st"

definition capacity :: "'v TupleVecImpl \<Rightarrow> size_type" where
  "capacity st = mNumCapacity st"

text \<open>\<open>TupleVecIter(tupleVec, index)\<close> snapshots every Leaf pointer.\<close>

definition iterator_at :: "'v TupleVecImpl \<Rightarrow> size_type \<Rightarrow> TupleVecIter" where
  "iterator_at tupleVec index = \<lparr>mIndex = index, it_mpData = map leaf_mpData (leaves tupleVec)\<rparr>"

definition tv_begin :: "'v TupleVecImpl \<Rightarrow> TupleVecIter" where
  "tv_begin st = iterator_at st 0"

definition cbegin :: "'v TupleVecImpl \<Rightarrow> TupleVecIter" where
  "cbegin st = iterator_at st 0"

definition tv_end :: "'v TupleVecImpl \<Rightarrow> TupleVecIter" where
  "tv_end st = iterator_at st (tv_size st)"

text \<open>
  \<open>variadicAnd(bool cond, bool conds...)\<close> declares a second parameter followed by a C
  ellipsis and returns \<open>cond && variadicAnd(conds)\<close>: arguments after the second are not
  read. There is no overload without arguments.
\<close>

fun variadicAnd :: "bool list \<Rightarrow> bool" where
  "variadicAnd [] = True"
| "variadicAnd [cond] = cond"
| "variadicAnd (cond # conds # rest) = (cond \<and> variadicAnd [conds])"

definition isf_none :: int where "isf_none = 0"
definition isf_valid :: int where "isf_valid = 1"
definition isf_current :: int where "isf_current = 2"
definition isf_can_dereference :: int where "isf_can_dereference = 4"

definition validate_iterator :: "'v TupleVecImpl \<Rightarrow> TupleVecIter \<Rightarrow> int" where
  "validate_iterator st iter =
     (if \<not> variadicAnd (map (\<lambda>I. it_mpData iter ! I = leaf_mpData (leaves st ! I))
                              [0..<length (leaves st)])
      then isf_none
      else if mIndex iter < mNumElements st
      then (isf_valid OR isf_current OR isf_can_dereference)
      else if mIndex iter \<le> mNumElements st
      then (isf_valid OR isf_current)
      else isf_none)"

definition validate_iterator_pair :: "TupleVecIter \<Rightarrow> TupleVecIter \<Rightarrow> bool" where
  "validate_iterator_pair first last' \<longleftrightarrow>
     mIndex first \<le> mIndex last' \<and>
     variadicAnd (map (\<lambda>I. it_mpData first ! I = it_mpData last' ! I)
                      [0..<length (it_mpData first)])"

text \<open>\<open>validate()\<close>: the size is within the capacity and the Leaf pointers lie within the
  allocation.\<close>

definition validate :: "'v TupleVecImpl \<Rightarrow> bool" where
  "validate st =
     (if mNumElements st > mNumCapacity st then False
      else if \<not> variadicAnd (map (\<lambda>leaf. mpData st \<le> leaf_mpData leaf) (leaves st)) then False
      else (let pDataEnd = mpData st + unat (internalDataSize st)
            in if \<not> variadicAnd (map (\<lambda>leaf. pDataEnd \<ge> leaf_mpData leaf) (leaves st))
               then False
               else True))"

text \<open>\<open>at(n)\<close>: the tuple of references to the slots at index \<open>n\<close>, read here as their
  contents; \<open>None\<close> is the failed \<open>assert(n < mNumElements)\<close>.\<close>

definition tv_at :: "'v TupleVecImpl \<Rightarrow> size_type \<Rightarrow> 'v slot list option" where
  "tv_at st n = (if n < mNumElements st
              then Some (map (\<lambda>leaf. leaf_mem leaf (unat n)) (leaves st))
              else None)"

definition tv_back :: "'v TupleVecImpl \<Rightarrow> 'v slot list option" where
  "tv_back st = (if mNumElements st > 0 then tv_at st (tv_size st - 1) else None)"

text \<open>The live elements in order, each as the tuple of its column slots.\<close>

definition rows :: "'v TupleVecImpl \<Rightarrow> 'v slot list list" where
  "rows st = map (\<lambda>k. map (\<lambda>leaf. leaf_mem leaf k) (leaves st)) [0..<unat (mNumElements st)]"

subsubsection \<open>Growth\<close>

definition GetNewCapacity :: "size_type \<Rightarrow> size_type" where
  "GetNewCapacity oldNumCapacity = (if oldNumCapacity > 0 then 2 * oldNumCapacity else 1)"

definition DoReallocate ::
    "heap \<Rightarrow> 'v TupleVecImpl \<Rightarrow> size_type \<Rightarrow> size_type \<Rightarrow> (heap \<times> 'v TupleVecImpl) outcome" where
  "DoReallocate h st oldNumElements requiredCapacity =
     (case DoAllocate h (column_types st) requiredCapacity 0 of
        None \<Rightarrow> BadAlloc (h, st)
      | Some (h1, allocation, ppNewLeaf) \<Rightarrow>
          (let moved = map (\<lambda>leaf. DoUninitializedMoveAndDestruct leaf 0 oldNumElements raw_mem 0)
                           (leaves st);
               leaves' = map2 (\<lambda>(leaf, new) p. leaf\<lparr>leaf_mpData := p, leaf_mem := new\<rparr>)
                              moved ppNewLeaf;
               h2 = deallocate h1 (mpData st) (internalDataSize st)
           in Done (h2, st\<lparr>leaves := leaves',
                             mpData := fst allocation,
                             mNumCapacity := requiredCapacity,
                             internalDataSize := snd allocation\<rparr>)))"

definition DoGrow ::
    "heap \<Rightarrow> 'v TupleVecImpl \<Rightarrow> size_type \<Rightarrow> size_type \<Rightarrow> size_type
      \<Rightarrow> (heap \<times> 'v TupleVecImpl) outcome" where
  "DoGrow h st oldNumElements oldNumCapacity requiredCapacity =
     (if requiredCapacity > oldNumCapacity
      then DoReallocate h st oldNumElements (GetNewCapacity requiredCapacity)
      else Done (h, st))"

definition DoConditionalReallocate ::
    "heap \<Rightarrow> 'v TupleVecImpl \<Rightarrow> size_type \<Rightarrow> size_type \<Rightarrow> size_type
      \<Rightarrow> (heap \<times> 'v TupleVecImpl) outcome" where
  "DoConditionalReallocate h st oldNumElements oldNumCapacity requiredCapacity =
     (if requiredCapacity > oldNumCapacity
      then DoReallocate h st oldNumElements requiredCapacity
      else Done (h, st))"

text \<open>Placement-new of \<open>args...\<close> at one index in every column.\<close>

definition construct_at :: "nat \<Rightarrow> 'v TupleVecLeaf \<Rightarrow> 'v \<Rightarrow> 'v TupleVecLeaf" where
  "construct_at k leaf arg = leaf\<lparr>leaf_mem := (leaf_mem leaf)(k := Obj arg)\<rparr>"

definition push_back ::
    "heap \<Rightarrow> 'v TupleVecImpl \<Rightarrow> 'v list \<Rightarrow> (heap \<times> 'v TupleVecImpl) outcome" where
  "push_back h st args =
     (let oldNumElements = mNumElements st;
          newNumElements = oldNumElements + 1;
          oldNumCapacity = mNumCapacity st;
          st1 = st\<lparr>mNumElements := newNumElements\<rparr>
      in case DoGrow h st1 oldNumElements oldNumCapacity newNumElements of
           Done (h2, st2) \<Rightarrow>
             Done (h2, st2\<lparr>leaves := map2 (construct_at (unat oldNumElements)) (leaves st2) args\<rparr>)
         | BadAlloc s \<Rightarrow> BadAlloc s
         | AssertFail \<Rightarrow> AssertFail)"

definition push_back_uninitialized ::
    "heap \<Rightarrow> 'v TupleVecImpl \<Rightarrow> (heap \<times> 'v TupleVecImpl) outcome" where
  "push_back_uninitialized h st =
     (let oldNumElements = mNumElements st;
          newNumElements = oldNumElements + 1;
          oldNumCapacity = mNumCapacity st;
          st1 = st\<lparr>mNumElements := newNumElements\<rparr>
      in DoGrow h st1 oldNumElements oldNumCapacity newNumElements)"

definition emplace_back ::
    "heap \<Rightarrow> 'v TupleVecImpl \<Rightarrow> 'v list
      \<Rightarrow> (heap \<times> 'v TupleVecImpl \<times> 'v slot list option) outcome" where
  "emplace_back h st args =
     (let oldNumElements = mNumElements st;
          newNumElements = oldNumElements + 1;
          oldNumCapacity = mNumCapacity st;
          st1 = st\<lparr>mNumElements := newNumElements\<rparr>
      in case DoGrow h st1 oldNumElements oldNumCapacity newNumElements of
           Done (h2, st2) \<Rightarrow>
             (let st3 = st2\<lparr>leaves := map2 (construct_at (unat oldNumElements)) (leaves st2) args\<rparr>
              in Done (h2, st3, tv_back st3))
         | BadAlloc s \<Rightarrow> BadAlloc (fst s, snd s, None)
         | AssertFail \<Rightarrow> AssertFail)"

definition resize ::
    "heap \<Rightarrow> 'v TupleVecImpl \<Rightarrow> size_type \<Rightarrow> 'v list \<Rightarrow> (heap \<times> 'v TupleVecImpl) outcome" where
  "resize h st n args =
     (let oldNumElements = mNumElements st;
          oldNumCapacity = mNumCapacity st;
          st1 = st\<lparr>mNumElements := n\<rparr>
      in if n > oldNumElements
         then (case (if n > oldNumCapacity
                     then DoReallocate h st1 oldNumElements (max (GetNewCapacity oldNumCapacity) n)
                     else Done (h, st1)) of
                 Done (h2, st2) \<Rightarrow>
                   Done (h2, st2\<lparr>leaves := map2 (\<lambda>leaf arg. leaf\<lparr>leaf_mem :=
                            std_uninitialized_fill (leaf_mem leaf) (unat oldNumElements) (unat n) arg\<rparr>)
                          (leaves st2) args\<rparr>)
               | BadAlloc s \<Rightarrow> BadAlloc s
               | AssertFail \<Rightarrow> AssertFail)
         else Done (h, st1\<lparr>leaves := map (\<lambda>leaf. leaf\<lparr>leaf_mem :=
                        std_destroy (leaf_mem leaf) (unat n) (unat oldNumElements)\<rparr>) (leaves st1)\<rparr>))"

definition reserve ::
    "heap \<Rightarrow> 'v TupleVecImpl \<Rightarrow> size_type \<Rightarrow> (heap \<times> 'v TupleVecImpl) outcome" where
  "reserve h st n = DoConditionalReallocate h st (mNumElements st) (mNumCapacity st) n"

subsubsection \<open>insert and erase\<close>

definition insert_n ::
    "heap \<Rightarrow> 'v TupleVecImpl \<Rightarrow> TupleVecIter \<Rightarrow> size_type \<Rightarrow> 'v list
      \<Rightarrow> (heap \<times> 'v TupleVecImpl \<times> TupleVecIter) outcome" where
  "insert_n h st pos n args =
     (if validate_iterator st pos = isf_none then AssertFail
      else
        (let firstIdx = iter_diff pos (cbegin st);
             lastIdx = firstIdx + n;
             oldNumElements = mNumElements st;
             newNumElements = mNumElements st + n;
             oldNumCapacity = mNumCapacity st;
             st1 = st\<lparr>mNumElements := newNumElements\<rparr>
         in if newNumElements > oldNumCapacity \<or> firstIdx \<noteq> oldNumElements
            then
              (if newNumElements > oldNumCapacity
               then
                 (let newCapacity = max (GetNewCapacity oldNumCapacity) newNumElements
                  in case DoAllocate h (column_types st1) newCapacity 0 of
                       None \<Rightarrow> BadAlloc (h, st1, pos)
                     | Some (h1, allocation, ppNewLeaf) \<Rightarrow>
                         (let s1 = map (\<lambda>leaf. DoUninitializedMoveAndDestruct leaf 0 firstIdx raw_mem 0)
                                       (leaves st1);
                              s2 = map (\<lambda>(leaf, new). DoUninitializedMoveAndDestruct
                                                          leaf firstIdx oldNumElements new (unat lastIdx)) s1;
                              s3 = map2 (\<lambda>(leaf, new) arg.
                                           (leaf, std_uninitialized_fill new (unat firstIdx) (unat lastIdx) arg))
                                        s2 args;
                              leaves' = map2 (\<lambda>(leaf, new) p. leaf\<lparr>leaf_mpData := p, leaf_mem := new\<rparr>)
                                             s3 ppNewLeaf;
                              h2 = deallocate h1 (mpData st1) (internalDataSize st1);
                              st2 = st1\<lparr>leaves := leaves',
                                        mpData := fst allocation,
                                        mNumCapacity := newCapacity,
                                        internalDataSize := snd allocation\<rparr>
                          in Done (h2, st2, iter_plus (tv_begin st2) firstIdx)))
               else
                 (let st2 = st1\<lparr>leaves := map2 (\<lambda>leaf arg. DoInsertAndFill leaf firstIdx n oldNumElements arg)
                                                 (leaves st1) args\<rparr>
                  in Done (h, st2, iter_plus (tv_begin st2) firstIdx)))
            else
              (let st2 = st1\<lparr>leaves := map2 (\<lambda>leaf arg. leaf\<lparr>leaf_mem :=
                               std_uninitialized_fill (leaf_mem leaf) (unat oldNumElements)
                                                      (unat newNumElements) arg\<rparr>)
                             (leaves st1) args\<rparr>
               in Done (h, st2, iter_plus (tv_begin st2) firstIdx))))"

definition erase ::
    "'v TupleVecImpl \<Rightarrow> TupleVecIter \<Rightarrow> TupleVecIter \<Rightarrow> ('v TupleVecImpl \<times> TupleVecIter) outcome" where
  "erase st first last' =
     (if \<not> (validate_iterator st first \<noteq> isf_none \<and> validate_iterator st last' \<noteq> isf_none)
      then AssertFail
      else if \<not> validate_iterator_pair first last' then AssertFail
      else if iter_ne first last'
      then
        (let firstIdx = iter_diff first (cbegin st);
             lastIdx = iter_diff last' (cbegin st);
             oldNumElements = mNumElements st;
             newNumElements = oldNumElements - (lastIdx - firstIdx);
             st1 = st\<lparr>mNumElements := newNumElements\<rparr>;
             st2 = st1\<lparr>leaves := map (\<lambda>leaf. leaf\<lparr>leaf_mem :=
                        std_move (leaf_mem leaf) (unat lastIdx) (unat oldNumElements) (unat firstIdx)\<rparr>)
                      (leaves st1)\<rparr>;
             st3 = st2\<lparr>leaves := map (\<lambda>leaf. leaf\<lparr>leaf_mem :=
                        std_destroy (leaf_mem leaf) (unat newNumElements) (unat oldNumElements)\<rparr>)
                      (leaves st2)\<rparr>
         in Done (st3, iter_plus (tv_begin st3) (mIndex first)))
      else Done (st, iter_plus (tv_begin st) (mIndex first)))"

text \<open>On an empty container \<open>oldNumElements - 1\<close> wraps and the ranges that follow are
  not ranges; the source is undefined there.\<close>

definition erase_unsorted ::
    "'v TupleVecImpl \<Rightarrow> TupleVecIter \<Rightarrow> ('v TupleVecImpl \<times> TupleVecIter) outcome" where
  "erase_unsorted st pos =
     (if validate_iterator st pos = isf_none then AssertFail
      else
        (let oldNumElements = mNumElements st;
             newNumElements = oldNumElements - 1;
             st1 = st\<lparr>mNumElements := newNumElements\<rparr>;
             st2 = st1\<lparr>leaves := map (\<lambda>leaf. leaf\<lparr>leaf_mem :=
                        std_move (leaf_mem leaf) (unat newNumElements) (unat oldNumElements)
                                 (unat (iter_diff pos (tv_begin st1)))\<rparr>)
                      (leaves st1)\<rparr>;
             st3 = st2\<lparr>leaves := map (\<lambda>leaf. leaf\<lparr>leaf_mem :=
                        std_destroy (leaf_mem leaf) (unat newNumElements) (unat oldNumElements)\<rparr>)
                      (leaves st2)\<rparr>
         in Done (st3, iter_plus (tv_begin st3) (mIndex pos))))"

definition clear :: "'v TupleVecImpl \<Rightarrow> 'v TupleVecImpl" where
  "clear st =
     (let oldNumElements = mNumElements st;
          st1 = st\<lparr>mNumElements := 0\<rparr>
      in st1\<lparr>leaves := map (\<lambda>leaf. leaf\<lparr>leaf_mem :=
                 std_destroy (leaf_mem leaf) 0 (unat oldNumElements)\<rparr>) (leaves st1)\<rparr>)"

subsubsection \<open>shrink\_to\_fit\<close>

text \<open>The members as the constructors initialise them: null pointers, no elements.\<close>

definition TupleVecImpl_init :: "column_type list \<Rightarrow> 'v TupleVecImpl" where
  "TupleVecImpl_init Ts =
     \<lparr>mpData = 0, mNumElements = 0, mNumCapacity = 0, internalDataSize = 0,
      leaves = map (\<lambda>T. \<lparr>leaf_type = T, leaf_mpData = 0, leaf_mem = raw_mem\<rparr>) Ts\<rparr>"

text \<open>\<open>DoInitFromIterator(move_iterator begin, move_iterator end)\<close>. The iterators carry
  the Leaf pointers of the container \<open>other\<close> they range over; its arrays are read
  through them.\<close>

definition DoInitFromIterator ::
    "heap \<Rightarrow> 'v TupleVecImpl \<Rightarrow> 'v TupleVecImpl \<Rightarrow> TupleVecIter \<Rightarrow> TupleVecIter
      \<Rightarrow> (heap \<times> 'v TupleVecImpl) outcome" where
  "DoInitFromIterator h st other begin' end' =
     (if \<not> validate_iterator_pair begin' end' then AssertFail
      else
        (let newNumElements = iter_diff end' begin';
             beginIdx = mIndex begin';
             endIdx = mIndex end'
         in case DoConditionalReallocate h st 0 (mNumCapacity st) newNumElements of
              Done (h1, st1) \<Rightarrow>
                (let st2 = st1\<lparr>mNumElements := newNumElements\<rparr>
                 in Done (h1, st2\<lparr>leaves := map2 (\<lambda>leaf src. leaf\<lparr>leaf_mem :=
                            std_uninitialized_move_into (leaf_mem src) (unat beginIdx) (unat endIdx)
                                                        (leaf_mem leaf) 0\<rparr>)
                          (leaves st2) (leaves other)\<rparr>))
            | BadAlloc s \<Rightarrow> BadAlloc s
            | AssertFail \<Rightarrow> AssertFail))"

definition swap :: "'v TupleVecImpl \<Rightarrow> 'v TupleVecImpl \<Rightarrow> 'v TupleVecImpl \<times> 'v TupleVecImpl" where
  "swap st x =
     (st\<lparr>leaves := map2 (\<lambda>a b. a\<lparr>leaf_mpData := leaf_mpData b, leaf_mem := leaf_mem b\<rparr>)
                         (leaves st) (leaves x),
         mpData := mpData x, mNumElements := mNumElements x, mNumCapacity := mNumCapacity x,
         internalDataSize := internalDataSize x\<rparr>,
      x\<lparr>leaves := map2 (\<lambda>a b. a\<lparr>leaf_mpData := leaf_mpData b, leaf_mem := leaf_mem b\<rparr>)
                        (leaves x) (leaves st),
        mpData := mpData st, mNumElements := mNumElements st, mNumCapacity := mNumCapacity st,
        internalDataSize := internalDataSize st\<rparr>)"

text \<open>The destructor destroys the live elements, whose arrays end with the object, and
  frees the allocation if there is one.\<close>

definition destructor :: "heap \<Rightarrow> 'v TupleVecImpl \<Rightarrow> heap" where
  "destructor h st = (if mpData st \<noteq> 0 then deallocate h (mpData st) (internalDataSize st) else h)"

text \<open>A failed allocation is thrown by the constructor of \<open>temp\<close>, before \<open>swap\<close>.\<close>

definition shrink_to_fit :: "heap \<Rightarrow> 'v TupleVecImpl \<Rightarrow> (heap \<times> 'v TupleVecImpl) outcome" where
  "shrink_to_fit h st =
     (case DoInitFromIterator h (TupleVecImpl_init (column_types st)) st (tv_begin st) (tv_end st) of
        Done (h1, temp) \<Rightarrow>
          (let (st', temp') = swap st temp
           in Done (destructor h1 temp', st'))
      | BadAlloc s \<Rightarrow> BadAlloc (h, st)
      | AssertFail \<Rightarrow> AssertFail)"

subsection \<open>The layout in the words of the specification\<close>

text \<open>\<open>align_up(x, a)\<close> is the least multiple of \<open>a\<close> that is not below \<open>x\<close>;
  \<open>offset\<^sub>0 = 0\<close> and
  \<open>offset\<^sub>i = align_up(offset\<^sub>i\<^sub>-\<^sub>1 + sizeof(column\<^sub>i\<^sub>-\<^sub>1) \<times> capacity, alignof(column\<^sub>i))\<close>.\<close>

definition align_up :: "nat \<Rightarrow> nat \<Rightarrow> nat" where
  "align_up x a = ((x + a - 1) div a) * a"

fun spec_offsets_from :: "nat \<Rightarrow> nat \<Rightarrow> (nat \<times> nat) list \<Rightarrow> nat \<Rightarrow> nat list" where
  "spec_offsets_from prev_offset prev_sizeof [] cap = []"
| "spec_offsets_from prev_offset prev_sizeof ((sz, al) # cols) cap =
     (let off = align_up (prev_offset + prev_sizeof * cap) al
      in off # spec_offsets_from off sz cols cap)"

fun spec_offsets :: "(nat \<times> nat) list \<Rightarrow> nat \<Rightarrow> nat list" where
  "spec_offsets [] cap = []"
| "spec_offsets ((sz, al) # cols) cap = 0 # spec_offsets_from 0 sz cols cap"

subsection \<open>Example states\<close>

text \<open>An allocator that always succeeds with an address above every live block, and one
  that always fails.\<close>

definition fresh_pick :: "addr list \<Rightarrow> size_type \<Rightarrow> addr option" where
  "fresh_pick lv n = Some (64 * Suc (sum_list lv))"

definition failing_pick :: "addr list \<Rightarrow> size_type \<Rightarrow> addr option" where
  "failing_pick lv n = None"

definition ex_iter_a :: TupleVecIter where
  "ex_iter_a = \<lparr>mIndex = 2, it_mpData = [4096, 4116]\<rparr>"

definition ex_iter_b :: TupleVecIter where
  "ex_iter_b = \<lparr>mIndex = 2, it_mpData = [4096, 9000]\<rparr>"

definition ex_iter_c :: TupleVecIter where
  "ex_iter_c = \<lparr>mIndex = 5, it_mpData = [4096, 4116]\<rparr>"

text \<open>A column array holding the given values, raw beyond them.\<close>

definition mem_of_list :: "'v list \<Rightarrow> 'v mem" where
  "mem_of_list xs = (\<lambda>k. if k < length xs then Obj (xs ! k) else Raw)"

text \<open>One \<open>int\<close> column holding 10, 20, 30 in an allocation for six elements.\<close>

definition ex_vec :: "int TupleVecImpl" where
  "ex_vec = \<lparr>mpData = 4096, mNumElements = 3, mNumCapacity = 6, internalDataSize = 24,
     leaves = [\<lparr>leaf_type = (4, 4), leaf_mpData = 4096, leaf_mem = mem_of_list [10, 20, 30]\<rparr>]\<rparr>"

text \<open>Two columns (a 4-byte and a 1-byte type) with four rows, filled to capacity.\<close>

definition ex_vec2 :: "int TupleVecImpl" where
  "ex_vec2 = \<lparr>mpData = 4096, mNumElements = 4, mNumCapacity = 4, internalDataSize = 20,
     leaves = [\<lparr>leaf_type = (4, 4), leaf_mpData = 4096, leaf_mem = mem_of_list [1, 2, 3, 4]\<rparr>,
               \<lparr>leaf_type = (1, 1), leaf_mpData = 4112, leaf_mem = mem_of_list [5, 6, 7, 8]\<rparr>]\<rparr>"

text \<open>The state \<open>erase\<close> leaves for a non-empty range, in closed form.\<close>

definition erased :: "'v TupleVecImpl \<Rightarrow> size_type \<Rightarrow> size_type \<Rightarrow> 'v TupleVecImpl" where
  "erased st fi li = st\<lparr>mNumElements := mNumElements st - (li - fi),
       leaves := map (\<lambda>leaf. leaf\<lparr>leaf_mem :=
           std_destroy (std_move (leaf_mem leaf) (unat li) (unat (mNumElements st)) (unat fi))
              (unat (mNumElements st - (li - fi))) (unat (mNumElements st))\<rparr>) (leaves st)\<rparr>"


text \<open>The state \<open>erase_unsorted\<close> leaves, in closed form.\<close>

definition unsorted_erased :: "'v TupleVecImpl \<Rightarrow> size_type \<Rightarrow> 'v TupleVecImpl" where
  "unsorted_erased st i = st\<lparr>mNumElements := mNumElements st - 1,
       leaves := map (\<lambda>leaf. leaf\<lparr>leaf_mem :=
           std_destroy (std_move (leaf_mem leaf) (unat (mNumElements st - 1))
                                 (unat (mNumElements st)) (unat i))
              (unat (mNumElements st - 1)) (unat (mNumElements st))\<rparr>) (leaves st)\<rparr>"

text \<open>The result of an operation that returned.\<close>

fun returned :: "'s outcome \<Rightarrow> 's option" where
  "returned (Done s) = Some s"
| "returned (BadAlloc s) = None"
| "returned AssertFail = None"


text \<open>An array after \<open>n\<close> copies of \<open>v\<close> are inserted at \<open>p\<close> among \<open>s\<close> live slots, and the state
  \<open>insert\<close> leaves when it does not reallocate, in closed form.\<close>

definition ins_slot :: "'v mem \<Rightarrow> nat \<Rightarrow> nat \<Rightarrow> nat \<Rightarrow> 'v \<Rightarrow> nat \<Rightarrow> 'v slot" where
  "ins_slot m p n s v k =
     (if k < p then m k else if k < p + n then Obj v else if k < s + n then m (k - n) else m k)"

definition inserted :: "'v TupleVecImpl \<Rightarrow> size_type \<Rightarrow> size_type \<Rightarrow> 'v list \<Rightarrow> 'v TupleVecImpl" where
  "inserted st pos n args = st\<lparr>mNumElements := mNumElements st + n,
      leaves := map2 (\<lambda>leaf arg. leaf\<lparr>leaf_mem :=
          ins_slot (leaf_mem leaf) (unat pos) (unat n) (unat (mNumElements st)) arg\<rparr>)
        (leaves st) args\<rparr>"

text \<open>A heap in which the block of the example containers is live.\<close>

definition ex_heap :: heap where
  "ex_heap = \<lparr>pick = fresh_pick, live = [4096]\<rparr>"


text \<open>The byte offset of each Leaf within the allocation, as \<open>DoAllocate\<close> and \<open>SetNewData\<close>
  compute it on the way down the column types.\<close>

fun leaf_offsets :: "column_type list \<Rightarrow> size_type \<Rightarrow> size_type \<Rightarrow> size_type list" where
  "leaf_offsets [] cap offset = []"
| "leaf_offsets (T # Ts) cap offset =
     CalculatAllocationOffset T offset
       # leaf_offsets Ts cap (CalculateAllocationSize T offset cap)"

text \<open>The total size in the words of the specification: the offset one past the region of
  the last column. \<open>nat_col\<close> reads a column type as natural numbers.\<close>

fun spec_size_from :: "nat \<Rightarrow> nat \<Rightarrow> (nat \<times> nat) list \<Rightarrow> nat \<Rightarrow> nat" where
  "spec_size_from prev_offset prev_sizeof [] cap = prev_offset + prev_sizeof * cap"
| "spec_size_from prev_offset prev_sizeof ((sz, al) # cols) cap =
     spec_size_from (align_up (prev_offset + prev_sizeof * cap) al) sz cols cap"

fun spec_size :: "(nat \<times> nat) list \<Rightarrow> nat \<Rightarrow> nat" where
  "spec_size [] cap = 0"
| "spec_size ((sz, al) # cols) cap = spec_size_from 0 sz cols cap"

definition nat_col :: "column_type \<Rightarrow> nat \<times> nat" where
  "nat_col T = (unat (fst T), unat (snd T))"

text \<open>Three column types, and a heap without live blocks.\<close>

definition ex_types :: "column_type list" where
  "ex_types = [(4, 4), (1, 1), (8, 8)]"

definition ex_heap0 :: heap where
  "ex_heap0 = \<lparr>pick = fresh_pick, live = []\<rparr>"


text \<open>A 4-byte and an 8-byte column type, and an empty container of them.\<close>

definition ex_wide_types :: "column_type list" where
  "ex_wide_types = [(4, 4), (8, 8)]"

definition ex_wide_empty :: "int TupleVecImpl" where
  "ex_wide_empty = TupleVecImpl_init ex_wide_types"


text \<open>A Leaf after its live range is relocated to the array at \<open>p\<close> in a fresh allocation.\<close>

definition relocated :: "'v TupleVecLeaf \<Rightarrow> size_type \<Rightarrow> addr \<Rightarrow> 'v TupleVecLeaf" where
  "relocated leaf oldNumElements p =
     leaf\<lparr>leaf_mpData := p,
          leaf_mem := (\<lambda>k. if k < unat oldNumElements then leaf_mem leaf k else Raw)\<rparr>"

text \<open>Sequential \<open>push_back\<close>s of the given rows; an empty \<open>int\<close> container; a heap whose
  allocator always fails.\<close>

fun push_back_all ::
    "heap \<Rightarrow> 'v TupleVecImpl \<Rightarrow> 'v list list \<Rightarrow> (heap \<times> 'v TupleVecImpl) outcome" where
  "push_back_all h st [] = Done (h, st)"
| "push_back_all h st (args # rest) =
     (case push_back h st args of
        Done (h', st') \<Rightarrow> push_back_all h' st' rest
      | BadAlloc s \<Rightarrow> BadAlloc s
      | AssertFail \<Rightarrow> AssertFail)"

definition ex_empty :: "int TupleVecImpl" where
  "ex_empty = TupleVecImpl_init [(4, 4)]"

definition ex_failing_heap :: heap where
  "ex_failing_heap = \<lparr>pick = failing_pick, live = [4096]\<rparr>"


text \<open>The states \<open>shrink_to_fit\<close> leaves, in closed form: with the elements relocated to a new
  allocation, and for an empty container.\<close>

definition shrunk :: "'v TupleVecImpl \<Rightarrow> addr \<times> size_type \<Rightarrow> addr list \<Rightarrow> 'v TupleVecImpl" where
  "shrunk st allocation ptrs =
     st\<lparr>leaves := map2 (\<lambda>leaf p. relocated leaf (mNumElements st) p) (leaves st) ptrs,
        mpData := fst allocation,
        mNumCapacity := mNumElements st,
        internalDataSize := snd allocation\<rparr>"

definition emptied :: "'v TupleVecImpl \<Rightarrow> 'v TupleVecImpl" where
  "emptied st =
     st\<lparr>leaves := map (\<lambda>leaf. leaf\<lparr>leaf_mpData := 0, leaf_mem := raw_mem\<rparr>) (leaves st),
        mpData := 0, mNumCapacity := 0, internalDataSize := 0\<rparr>"


section \<open>Properties\<close>

subsection \<open>The iterator\<close>

text \<open>
  Claim C6. Iterator arithmetic acts on the index alone, in \<open>std::size_t\<close>:
  \<open>(it + a) + b == it + (a + b)\<close>; for two iterators with the same column-0 pointer (as
  all iterators over one container have) \<open>it2 - it1 == n\<close> exactly when \<open>it1 + n == it2\<close>;
  \<open>(it + k) - it == k\<close>; and \<open>it + k == k + it\<close>. No bound on the offsets is needed.
\<close>

theorem iterator_algebra:
  "iter_eq (iter_plus (iter_plus it a) b) (iter_plus it (a + b))
   \<and> (it_mpData it1 ! 0 = it_mpData it2 ! 0 \<longrightarrow>
        (iter_diff it2 it1 = n \<longleftrightarrow> iter_eq (iter_plus it1 n) it2))
   \<and> iter_diff (iter_plus it k) it = k
   \<and> iter_eq (iter_plus it k) (plus_iter k it)"
proof -
  have assoc: "iter_eq (iter_plus (iter_plus it a) b) (iter_plus it (a + b))"
    by (simp add: iter_eq_def iter_plus_def iter_add_assign_def add.assoc)
  have "mIndex it2 - mIndex it1 = n \<longleftrightarrow> mIndex it1 + n = mIndex it2"
    by (auto simp: algebra_simps)
  then have diff: "it_mpData it1 ! 0 = it_mpData it2 ! 0 \<longrightarrow>
      (iter_diff it2 it1 = n \<longleftrightarrow> iter_eq (iter_plus it1 n) it2)"
    by (simp add: iter_eq_def iter_plus_def iter_add_assign_def iter_diff_def)
  have inv: "iter_diff (iter_plus it k) it = k"
    by (simp add: iter_plus_def iter_add_assign_def iter_diff_def)
  have comm: "iter_eq (iter_plus it k) (plus_iter k it)"
    by (simp add: iter_eq_def iter_plus_def plus_iter_def iter_add_assign_def)
  from assoc diff inv comm show ?thesis by blast
qed

theorem iterator_algebra_witness:
  "it_mpData ex_iter_a ! 0 = it_mpData ex_iter_c ! 0
   \<and> iter_diff ex_iter_c ex_iter_a = 3
   \<and> iter_eq (iter_plus ex_iter_a 3) ex_iter_c
   \<and> iter_eq (iter_plus (iter_plus ex_iter_a 1) 2) (iter_plus ex_iter_a (1 + 2))
   \<and> iter_diff (iter_plus ex_iter_a 3) ex_iter_a = 3
   \<and> iter_eq (iter_plus ex_iter_a 3) (plus_iter 3 ex_iter_a)"
proof -
  have p: "it_mpData ex_iter_a ! 0 = it_mpData ex_iter_c ! 0"
    by (simp add: ex_iter_a_def ex_iter_c_def)
  have d: "iter_diff ex_iter_c ex_iter_a = 3"
    by (simp add: ex_iter_a_def ex_iter_c_def iter_diff_def)
  from p d iterator_algebra [of ex_iter_a 1 2 ex_iter_a ex_iter_c 3 3]
  show ?thesis by simp
qed

text \<open>
  Claim C7. \<open>a == b\<close> holds exactly when the indices are equal and the column-0 pointers
  are equal; a pointer of any other column can be changed in either iterator without
  changing the result; and \<open>a != b\<close> is the negation of \<open>a == b\<close>.
\<close>

theorem iterator_equality:
  "(iter_eq a b \<longleftrightarrow> mIndex a = mIndex b \<and> it_mpData a ! 0 = it_mpData b ! 0)
   \<and> (\<forall>I p. 0 < I \<longrightarrow>
          iter_eq (a\<lparr>it_mpData := (it_mpData a)[I := p]\<rparr>) b = iter_eq a b
        \<and> iter_eq a (b\<lparr>it_mpData := (it_mpData b)[I := p]\<rparr>) = iter_eq a b)
   \<and> (iter_ne a b \<longleftrightarrow> \<not> iter_eq a b)"
  by (auto simp: iter_eq_def iter_ne_def)

theorem iterator_equality_witness:
  "iter_eq ex_iter_a ex_iter_b \<and> \<not> iter_ne ex_iter_a ex_iter_b
   \<and> it_mpData ex_iter_a ! 1 \<noteq> it_mpData ex_iter_b ! 1
   \<and> iter_ne ex_iter_a ex_iter_c"
  using iterator_equality [of ex_iter_a ex_iter_b] iterator_equality [of ex_iter_a ex_iter_c]
  by (simp add: ex_iter_a_def ex_iter_b_def ex_iter_c_def)

subsection \<open>The standard algorithms, slot by slot\<close>

text \<open>What each loop leaves in slot \<open>k\<close>. A move within one array is right when the
  destination starts at or before the source (forward) or the ranges are apart; a backward
  move when the destination ends at or after the source.\<close>

lemma move_loop_nth:
  "d \<le> first \<or> first + n \<le> d \<Longrightarrow>
   move_loop m first d n k = (if d \<le> k \<and> k < d + n then m (first + (k - d)) else m k)"
proof (induction n arbitrary: m first d)
  case 0
  then show ?case by auto
next
  case (Suc n)
  have c: "Suc d \<le> Suc first \<or> Suc first + n \<le> Suc d" using Suc.prems by auto
  have step: "move_loop m first d (Suc n) k =
      (if Suc d \<le> k \<and> k < Suc d + n then (m(d := m first)) (Suc first + (k - Suc d))
       else (m(d := m first)) k)"
    by (simp only: move_loop.simps Suc.IH [OF c])
  show ?case
  proof (cases "Suc d \<le> k \<and> k < Suc d + n")
    case True
    then have e: "Suc first + (k - Suc d) = first + (k - d)" by arith
    have "first + (k - d) \<noteq> d" using True Suc.prems by arith
    with True e step show ?thesis by simp
  next
    case False
    with step show ?thesis by (cases "k = d") auto
  qed
qed

lemma move_into_loop_nth:
  "move_into_loop src first dst d n k = (if d \<le> k \<and> k < d + n then src (first + (k - d)) else dst k)"
proof (induction n arbitrary: dst first d)
  case 0
  then show ?case by auto
next
  case (Suc n)
  have step: "move_into_loop src first dst d (Suc n) k =
      (if Suc d \<le> k \<and> k < Suc d + n then src (Suc first + (k - Suc d))
       else (dst(d := src first)) k)"
    by (simp only: move_into_loop.simps Suc.IH)
  show ?case
  proof (cases "Suc d \<le> k \<and> k < Suc d + n")
    case True
    then have e: "Suc first + (k - Suc d) = first + (k - d)" by arith
    with True step show ?thesis by simp
  next
    case False
    with step show ?thesis by (cases "k = d") auto
  qed
qed

lemma move_backward_loop_nth:
  "n \<le> l \<Longrightarrow> l \<le> dl \<Longrightarrow>
   move_backward_loop m l dl n k = (if dl - n \<le> k \<and> k < dl then m (l - (dl - k)) else m k)"
proof (induction n arbitrary: m l dl)
  case 0
  then show ?case by auto
next
  case (Suc n)
  have c: "n \<le> l - 1" "l - 1 \<le> dl - 1" using Suc.prems by auto
  have step: "move_backward_loop m l dl (Suc n) k =
      (if dl - 1 - n \<le> k \<and> k < dl - 1 then (m(dl - 1 := m (l - 1))) (l - 1 - (dl - 1 - k))
       else (m(dl - 1 := m (l - 1))) k)"
    by (simp only: move_backward_loop.simps Suc.IH [OF c])
  show ?case
  proof (cases "dl - 1 - n \<le> k \<and> k < dl - 1")
    case True
    then have e: "l - 1 - (dl - 1 - k) = l - (dl - k)" using Suc.prems by arith
    have "l - (dl - k) \<noteq> dl - 1" using True Suc.prems by arith
    moreover have "dl - Suc n \<le> k \<and> k < dl" using True by arith
    ultimately show ?thesis using True e step by simp
  next
    case False
    have s2: "move_backward_loop m l dl (Suc n) k = (m(dl - 1 := m (l - 1))) k"
      unfolding step using False by (rule if_not_P)
    show ?thesis
    proof (cases "k = dl - 1")
      case True
      then have r: "dl - Suc n \<le> k \<and> k < dl" and e: "l - (dl - k) = l - 1"
        using Suc.prems by arith+
      have "(if dl - Suc n \<le> k \<and> k < dl then m (l - (dl - k)) else m k) = m (l - (dl - k))"
        using r by (rule if_P)
      with s2 True e show ?thesis by simp
    next
      case neq: False
      then have r: "\<not> (dl - Suc n \<le> k \<and> k < dl)" using False Suc.prems by arith
      have "(if dl - Suc n \<le> k \<and> k < dl then m (l - (dl - k)) else m k) = m k"
        using r by (rule if_not_P)
      with s2 neq show ?thesis by simp
    qed
  qed
qed

lemma fill_loop_nth:
  "fill_loop m first v n k = (if first \<le> k \<and> k < first + n then Obj v else m k)"
  by (induction n arbitrary: m first) auto

lemma destroy_loop_nth:
  "destroy_loop m first n k = (if first \<le> k \<and> k < first + n then Raw else m k)"
  by (induction n arbitrary: m first) auto


subsection \<open>erase\<close>

lemma isf_flags_nonzero:
  "(isf_valid OR isf_current OR isf_can_dereference) \<noteq> isf_none"
  "(isf_valid OR isf_current) \<noteq> isf_none"
  by (simp_all add: isf_valid_def isf_current_def isf_can_dereference_def isf_none_def)

lemma validate_iterator_index:
  "validate_iterator st it \<noteq> isf_none \<Longrightarrow> mIndex it \<le> mNumElements st"
  by (auto simp: validate_iterator_def split: if_splits)

lemma iter_diff_cbegin [simp]: "iter_diff it (cbegin st) = mIndex it"
  by (simp add: iter_diff_def cbegin_def iterator_at_def)

lemma iter_diff_tv_begin [simp]: "iter_diff it (tv_begin st) = mIndex it"
  by (simp add: iter_diff_def tv_begin_def iterator_at_def)

lemma iter_plus_begin [simp]: "iter_plus (tv_begin st) i = iterator_at st i"
  by (simp add: iter_plus_def tv_begin_def iterator_at_def iter_add_assign_def)

lemma erase_slot:
  assumes "f \<le> l" "l \<le> s"
  shows "std_destroy (std_move m l s f) (s - (l - f)) s k =
     (if k < f then m k
      else if k < s - (l - f) then m (k + (l - f))
      else if k < s then Raw else m k)"
proof -
  have mv: "std_move m l s f k = (if f \<le> k \<and> k < f + (s - l) then m (l + (k - f)) else m k)" for k
    using assms by (simp add: std_move_def move_loop_nth)
  have ds: "std_destroy m' (s - (l - f)) s k =
      (if s - (l - f) \<le> k \<and> k < s then Raw else m' k)" for m' :: "'a mem"
    using assms by (simp add: std_destroy_def destroy_loop_nth)
  show ?thesis
    unfolding ds mv
  proof (cases "k < f")
    case True
    with assms show "(if s - (l - f) \<le> k \<and> k < s then Raw
        else if f \<le> k \<and> k < f + (s - l) then m (l + (k - f)) else m k) =
       (if k < f then m k else if k < s - (l - f) then m (k + (l - f))
        else if k < s then Raw else m k)"
      by auto
  next
    case nf: False
    show "(if s - (l - f) \<le> k \<and> k < s then Raw
        else if f \<le> k \<and> k < f + (s - l) then m (l + (k - f)) else m k) =
       (if k < f then m k else if k < s - (l - f) then m (k + (l - f))
        else if k < s then Raw else m k)"
    proof (cases "k < s - (l - f)")
      case True
      with nf assms have "f \<le> k \<and> k < f + (s - l)" "l + (k - f) = k + (l - f)"
         "\<not> (s - (l - f) \<le> k \<and> k < s)" by arith+
      with True nf show ?thesis by simp
    next
      case False
      with nf assms have "\<not> (f \<le> k \<and> k < f + (s - l))" 
        "(s - (l - f) \<le> k \<and> k < s) = (k < s)" by arith+
      with False nf show ?thesis by simp
    qed
  qed
qed

lemma rows_take_drop:
  assumes "f \<le> l" "l \<le> s"
  shows "map (\<lambda>k. R (if k < f then k else k + (l - f))) [0..<s - (l - f)]
       = take f (map R [0..<s]) @ drop l (map R [0..<s])"
proof (rule nth_equalityI)
  show "length (map (\<lambda>k. R (if k < f then k else k + (l - f))) [0..<s - (l - f)]) =
    length (take f (map R [0..<s]) @ drop l (map R [0..<s]))"
    using assms by simp
next
  fix i assume "i < length (map (\<lambda>k. R (if k < f then k else k + (l - f))) [0..<s - (l - f)])"
  then have i: "i < s - (l - f)" by simp
  show "map (\<lambda>k. R (if k < f then k else k + (l - f))) [0..<s - (l - f)] ! i =
        (take f (map R [0..<s]) @ drop l (map R [0..<s])) ! i"
  proof (cases "i < f")
    case True
    with i assms show ?thesis by (simp add: nth_append)
  next
    case False
    with i assms have "l + (i - f) < s" "l + (i - f) = i + (l - f)" by arith+
    with False i assms show ?thesis by (simp add: nth_append min_def)
  qed
qed


lemma erase_Done:
  assumes "validate_iterator st first \<noteq> isf_none" "validate_iterator st last' \<noteq> isf_none"
    "validate_iterator_pair first last'" "mIndex first \<noteq> mIndex last'"
  shows "erase st first last' =
     Done (erased st (mIndex first) (mIndex last'),
           iterator_at (erased st (mIndex first) (mIndex last')) (mIndex first))"
  using assms by (simp add: erase_def erased_def iter_ne_def Let_def o_def)

lemma rows_eq:
  "rows (st\<lparr>mNumElements := n, leaves := map (\<lambda>leaf. leaf\<lparr>leaf_mem := F (leaf_mem leaf)\<rparr>) (leaves st)\<rparr>)
   = map (\<lambda>k. map (\<lambda>leaf. F (leaf_mem leaf) k) (leaves st)) [0..<unat n]"
  by (simp add: rows_def o_def)

text \<open>
  Claim C3. For valid iterators \<open>first\<close>, \<open>last\<close> (the assertions of \<open>erase\<close> hold) with
  different indices \<open>f < l \<le> s\<close>, \<open>erase\<close> returns with size \<open>s - (l - f)\<close>; in every column the
  slots below \<open>f\<close> are unchanged and slot \<open>f + k\<close> holds what slot \<open>l + k\<close> held, for
  \<open>k < s - l\<close>; the rows are the old rows without those of \<open>[f, l)\<close>, in the same order for all
  columns; the returned iterator is at \<open>f\<close>.
\<close>

theorem erase_range:
  assumes v1: "validate_iterator st first \<noteq> isf_none"
      and v2: "validate_iterator st last' \<noteq> isf_none"
      and vp: "validate_iterator_pair first last'"
      and ne: "mIndex first \<noteq> mIndex last'"
  shows "\<exists>st' it. erase st first last' = Done (st', it)
     \<and> unat (mNumElements st') =
         unat (mNumElements st) - (unat (mIndex last') - unat (mIndex first))
     \<and> length (leaves st') = length (leaves st)
     \<and> (\<forall>i < length (leaves st).
          (\<forall>k < unat (mIndex first). leaf_mem (leaves st' ! i) k = leaf_mem (leaves st ! i) k)
        \<and> (\<forall>k < unat (mNumElements st) - unat (mIndex last').
             leaf_mem (leaves st' ! i) (unat (mIndex first) + k) =
             leaf_mem (leaves st ! i) (unat (mIndex last') + k)))
     \<and> rows st' = take (unat (mIndex first)) (rows st) @ drop (unat (mIndex last')) (rows st)
     \<and> mIndex it = mIndex first"
proof -
  let ?f = "unat (mIndex first)" and ?l = "unat (mIndex last')" and ?s = "unat (mNumElements st)"
  let ?st' = "erased st (mIndex first) (mIndex last')"
  have fl: "mIndex first \<le> mIndex last'" using vp by (simp add: validate_iterator_pair_def)
  have ls: "mIndex last' \<le> mNumElements st" using v2 by (rule validate_iterator_index)
  have fl': "?f \<le> ?l" and ls': "?l \<le> ?s" using fl ls by (simp_all add: word_le_nat_alt)
  have "mIndex last' - mIndex first \<le> mIndex last'" using fl by (simp add: word_sub_le)
  then have dl: "mIndex last' - mIndex first \<le> mNumElements st" using ls by simp
  have new: "unat (mNumElements st - (mIndex last' - mIndex first)) = ?s - (?l - ?f)"
    using dl fl by (simp add: unat_sub)
  have slot: "leaf_mem (leaves ?st' ! i) k =
      (if k < ?f then leaf_mem (leaves st ! i) k
       else if k < ?s - (?l - ?f) then leaf_mem (leaves st ! i) (k + (?l - ?f))
       else if k < ?s then Raw else leaf_mem (leaves st ! i) k)"
    if "i < length (leaves st)" for i k
    using that by (simp add: erased_def new erase_slot [OF fl' ls'])
  have r: "rows ?st' = take ?f (rows st) @ drop ?l (rows st)"
  proof -
    have "rows ?st' = map (\<lambda>k. map (\<lambda>leaf.
              std_destroy (std_move (leaf_mem leaf) ?l ?s ?f) (?s - (?l - ?f)) ?s k)
                                (leaves st)) [0..<?s - (?l - ?f)]"
      by (simp add: rows_def erased_def new o_def)
    also have "\<dots> = map (\<lambda>k. map (\<lambda>leaf. leaf_mem leaf (if k < ?f then k else k + (?l - ?f)))
                                (leaves st)) [0..<?s - (?l - ?f)]"
      by (rule map_cong [OF refl]) (simp add: erase_slot [OF fl' ls'])
    also have "\<dots> = take ?f (rows st) @ drop ?l (rows st)"
      unfolding rows_def using rows_take_drop [OF fl' ls'] by fast
    finally show ?thesis .
  qed
  have cols: "(\<forall>k < ?f. leaf_mem (leaves ?st' ! i) k = leaf_mem (leaves st ! i) k)
        \<and> (\<forall>k < ?s - ?l. leaf_mem (leaves ?st' ! i) (?f + k) = leaf_mem (leaves st ! i) (?l + k))"
    if i: "i < length (leaves st)" for i
  proof (intro conjI allI impI)
    fix k assume "k < ?f"
    then show "leaf_mem (leaves ?st' ! i) k = leaf_mem (leaves st ! i) k"
      by (simp add: slot [OF i])
  next
    fix k assume "k < ?s - ?l"
    then have "\<not> ?f + k < ?f" "?f + k < ?s - (?l - ?f)" "?f + k + (?l - ?f) = ?l + k"
      using fl' ls' by arith+
    then show "leaf_mem (leaves ?st' ! i) (?f + k) = leaf_mem (leaves st ! i) (?l + k)"
      by (simp add: slot [OF i] ac_simps)
  qed
  have "erase st first last' = Done (?st', iterator_at ?st' (mIndex first))"
    using v1 v2 vp ne by (rule erase_Done)
  moreover have "unat (mNumElements ?st') = ?s - (?l - ?f)" using new by (simp add: erased_def)
  moreover have "length (leaves ?st') = length (leaves st)" by (simp add: erased_def)
  moreover have "mIndex (iterator_at ?st' (mIndex first)) = mIndex first"
    by (simp add: iterator_at_def)
  ultimately show ?thesis using r cols by blast
qed



lemma rows_ex_vec2: "rows ex_vec2 = [[Obj 1, Obj 5], [Obj 2, Obj 6], [Obj 3, Obj 7], [Obj 4, Obj 8]]"
  by (simp add: rows_def ex_vec2_def mem_of_list_def upt_rec)

lemma rows_ex_vec: "rows ex_vec = [[Obj 10], [Obj 20], [Obj 30]]"
  by (simp add: rows_def ex_vec_def mem_of_list_def upt_rec)

lemma valid_ex_vec2:
  "validate_iterator ex_vec2 (iterator_at ex_vec2 1) \<noteq> isf_none"
  "validate_iterator ex_vec2 (iterator_at ex_vec2 3) \<noteq> isf_none"
  "validate_iterator_pair (iterator_at ex_vec2 1) (iterator_at ex_vec2 3)"
  by (simp_all add: validate_iterator_def validate_iterator_pair_def iterator_at_def ex_vec2_def
      isf_flags_nonzero upt_rec)

theorem erase_range_witness:
  "validate_iterator ex_vec2 (iterator_at ex_vec2 1) \<noteq> isf_none
   \<and> validate_iterator ex_vec2 (iterator_at ex_vec2 3) \<noteq> isf_none
   \<and> validate_iterator_pair (iterator_at ex_vec2 1) (iterator_at ex_vec2 3)
   \<and> mIndex (iterator_at ex_vec2 1) \<noteq> mIndex (iterator_at ex_vec2 3)
   \<and> (\<exists>st' it. erase ex_vec2 (iterator_at ex_vec2 1) (iterator_at ex_vec2 3) = Done (st', it)
         \<and> unat (mNumElements st') = 2
         \<and> rows st' = [[Obj 1, Obj 5], [Obj 4, Obj 8]]
         \<and> mIndex it = 1)"
proof -
  have ne: "mIndex (iterator_at ex_vec2 1) \<noteq> mIndex (iterator_at ex_vec2 3)"
    by (simp add: iterator_at_def)
  have i: "unat (mIndex (iterator_at ex_vec2 1)) = 1" "unat (mIndex (iterator_at ex_vec2 3)) = 3"
    "unat (mNumElements ex_vec2) = 4" "mIndex (iterator_at ex_vec2 1) = 1"
    by (simp_all add: iterator_at_def ex_vec2_def)
  from erase_range [OF valid_ex_vec2 ne]
  obtain st' it where "erase ex_vec2 (iterator_at ex_vec2 1) (iterator_at ex_vec2 3) = Done (st', it)"
    "unat (mNumElements st') = 2" "rows st' = [[Obj 1, Obj 5], [Obj 4, Obj 8]]" "mIndex it = 1"
    unfolding i rows_ex_vec2 by auto
  with valid_ex_vec2 ne show ?thesis by blast
qed


subsection \<open>clear, and erase of an empty range\<close>

lemma std_destroy_nth:
  "std_destroy m a b k = (if a \<le> k \<and> k < b then Raw else m k)"
  by (auto simp: std_destroy_def destroy_loop_nth)

text \<open>
  Claim C10. \<open>clear\<close> sets the size to 0 and destroys every live slot of every column; the
  capacity, the allocation pointer, the allocation size and every Leaf pointer are
  unchanged, and \<open>clear\<close> does not reach the allocator. \<open>erase(first, last)\<close> with
  \<open>first == last\<close> changes nothing and returns an iterator at the index of \<open>first\<close>, unless
  one of its assertions stops it; with valid iterators it returns.
\<close>

theorem clear_and_empty_erase:
  "mNumElements (clear st) = 0
   \<and> mNumCapacity (clear st) = mNumCapacity st
   \<and> mpData (clear st) = mpData st
   \<and> internalDataSize (clear st) = internalDataSize st
   \<and> map leaf_mpData (leaves (clear st)) = map leaf_mpData (leaves st)
   \<and> (\<forall>i < length (leaves st). \<forall>k.
         leaf_mem (leaves (clear st) ! i) k =
           (if k < unat (mNumElements st) then Raw else leaf_mem (leaves st ! i) k))
   \<and> rows (clear st) = []
   \<and> (iter_eq first last' \<longrightarrow>
         erase st first last' = AssertFail
       \<or> erase st first last' = Done (st, iterator_at st (mIndex first)))
   \<and> (iter_eq first last' \<longrightarrow> validate_iterator st first \<noteq> isf_none \<longrightarrow>
        validate_iterator st last' \<noteq> isf_none \<longrightarrow> validate_iterator_pair first last' \<longrightarrow>
         erase st first last' = Done (st, iterator_at st (mIndex first)))"
proof -
  have ptrs: "map leaf_mpData (leaves (clear st)) = map leaf_mpData (leaves st)"
    by (simp add: clear_def Let_def o_def)
  have slots: "\<forall>i < length (leaves st). \<forall>k.
         leaf_mem (leaves (clear st) ! i) k =
           (if k < unat (mNumElements st) then Raw else leaf_mem (leaves st ! i) k)"
    by (simp add: clear_def Let_def std_destroy_nth)
  have rows0: "rows (clear st) = []"
    by (simp add: clear_def Let_def rows_def)
  have e1: "erase st first last' = AssertFail
       \<or> erase st first last' = Done (st, iterator_at st (mIndex first))" if "iter_eq first last'"
    using that by (simp add: erase_def iter_eq_def iter_ne_def)
  have e2: "erase st first last' = Done (st, iterator_at st (mIndex first))"
    if "iter_eq first last'" "validate_iterator st first \<noteq> isf_none"
      "validate_iterator st last' \<noteq> isf_none" "validate_iterator_pair first last'"
    using that by (simp add: erase_def iter_eq_def iter_ne_def)
  show ?thesis
    using ptrs slots rows0 e1 e2 by (simp add: clear_def Let_def)
qed

theorem clear_and_empty_erase_witness:
  "iter_eq (iterator_at ex_vec2 1) (iterator_at ex_vec2 1)
   \<and> validate_iterator ex_vec2 (iterator_at ex_vec2 1) \<noteq> isf_none
   \<and> validate_iterator_pair (iterator_at ex_vec2 1) (iterator_at ex_vec2 1)
   \<and> erase ex_vec2 (iterator_at ex_vec2 1) (iterator_at ex_vec2 1)
       = Done (ex_vec2, iterator_at ex_vec2 1)
   \<and> mNumElements (clear ex_vec2) = 0 \<and> mNumCapacity (clear ex_vec2) = 4
   \<and> mpData (clear ex_vec2) = 4096
   \<and> map leaf_mpData (leaves (clear ex_vec2)) = [4096, 4112]
   \<and> leaf_mem (leaves (clear ex_vec2) ! 1) 2 = Raw
   \<and> leaf_mem (leaves ex_vec2 ! 1) 2 = Obj 7"
proof -
  have e: "iter_eq (iterator_at ex_vec2 1) (iterator_at ex_vec2 1)"
    by (simp add: iter_eq_def)
  have v: "validate_iterator ex_vec2 (iterator_at ex_vec2 1) \<noteq> isf_none"
    by (rule valid_ex_vec2)
  have p: "validate_iterator_pair (iterator_at ex_vec2 1) (iterator_at ex_vec2 1)"
    by (simp add: validate_iterator_pair_def iterator_at_def ex_vec2_def upt_rec)
  have x: "length (leaves ex_vec2) = 2" "unat (mNumElements ex_vec2) = 4"
     "mNumCapacity ex_vec2 = 4" "mpData ex_vec2 = 4096"
     "map leaf_mpData (leaves ex_vec2) = [4096, 4112]" "leaf_mem (leaves ex_vec2 ! 1) 2 = Obj 7"
     "mIndex (iterator_at ex_vec2 1) = 1"
    by (simp_all add: ex_vec2_def mem_of_list_def iterator_at_def)
  from clear_and_empty_erase [of ex_vec2 "iterator_at ex_vec2 1" "iterator_at ex_vec2 1"] e v p x
  show ?thesis by simp
qed


subsection \<open>erase\_unsorted\<close>

lemma mset_butlast: "xs \<noteq> [] \<Longrightarrow> mset (butlast xs) = mset xs - {#last xs#}"
  by (cases xs rule: rev_cases) simp_all

lemma mset_butlast_update:
  assumes "i < length xs - 1" shows "mset ((butlast xs)[i := last xs]) = mset xs - {#xs ! i#}"
proof -
  let ?ys = "butlast xs"
  have ne: "xs \<noteq> []" using assms by auto
  have i: "i < length ?ys" using assms by simp
  have x: "mset xs = add_mset (last xs) (mset ?ys)"
    using ne by (cases xs rule: rev_cases) simp_all
  have e: "xs ! i = ?ys ! i" using i by (simp add: nth_butlast)
  have m: "?ys ! i \<in># mset ?ys" using i by simp
  show ?thesis
    using i m unfolding x e by (simp add: mset_update)
qed

lemma mset_swap_last:
  assumes "i < length xs"
  shows "mset (map (\<lambda>k. if k = i then xs ! (length xs - 1) else xs ! k) [0..<length xs - 1])
         = mset xs - {#xs ! i#}"
proof (cases "i = length xs - 1")
  case True
  have ne: "xs \<noteq> []" using assms by auto
  have "map (\<lambda>k. if k = i then xs ! (length xs - 1) else xs ! k) [0..<length xs - 1] = butlast xs"
    using True by (intro nth_equalityI) (auto simp: nth_butlast)
  then show ?thesis using True ne by (simp add: mset_butlast last_conv_nth)
next
  case False
  have ne: "xs \<noteq> []" using assms by auto
  have "map (\<lambda>k. if k = i then xs ! (length xs - 1) else xs ! k) [0..<length xs - 1]
      = (butlast xs)[i := last xs]"
    using assms False ne by (intro nth_equalityI) (auto simp: nth_butlast last_conv_nth nth_list_update)
  then show ?thesis using False assms by (simp add: mset_butlast_update)
qed

lemma erase_unsorted_slot:
  assumes "i < s"
  shows "std_destroy (std_move m (s - Suc 0) s i) (s - Suc 0) s k =
     (if k = s - Suc 0 then Raw else if k = i then m (s - Suc 0) else m k)"
proof -
  have "s - (s - Suc 0) = Suc 0" using assms by arith
  then have mv: "std_move m (s - Suc 0) s i = m(i := m (s - Suc 0))"
    by (simp add: std_move_def)
  have "(s - Suc 0 \<le> k \<and> k < s) = (k = s - Suc 0)" using assms by arith
  then show ?thesis by (simp add: std_destroy_nth mv)
qed

lemma erase_unsorted_Done:
  assumes "validate_iterator st pos \<noteq> isf_none"
  shows "erase_unsorted st pos =
     Done (unsorted_erased st (mIndex pos), iterator_at (unsorted_erased st (mIndex pos)) (mIndex pos))"
  using assms by (simp add: erase_unsorted_def unsorted_erased_def Let_def o_def)

text \<open>
  Claim C4. For a valid position \<open>i < s\<close>, \<open>erase_unsorted\<close> returns with size \<open>s - 1\<close>. When
  \<open>i < s - 1\<close> the element at \<open>i\<close> is, in every column, the one that was at \<open>s - 1\<close>; when
  \<open>i = s - 1\<close> index \<open>i\<close> is no longer an element (the last element is dropped). Every
  other element below \<open>s - 1\<close> is unchanged, and the multiset of rows is the old one less
  the erased row. The returned iterator is at \<open>i\<close>.
\<close>

theorem erase_unsorted_effect:
  assumes v: "validate_iterator st pos \<noteq> isf_none"
      and lt: "mIndex pos < mNumElements st"
  shows "\<exists>st' it. erase_unsorted st pos = Done (st', it)
     \<and> mNumElements st' = mNumElements st - 1
     \<and> unat (mNumElements st') = unat (mNumElements st) - 1
     \<and> (mIndex pos < mNumElements st - 1 \<longrightarrow>
          tv_at st' (mIndex pos) = tv_at st (mNumElements st - 1))
     \<and> (mIndex pos = mNumElements st - 1 \<longrightarrow> tv_at st' (mIndex pos) = None)
     \<and> (\<forall>j. j < mNumElements st - 1 \<longrightarrow> j \<noteq> mIndex pos \<longrightarrow> tv_at st' j = tv_at st j)
     \<and> mset (rows st') = mset (rows st) - {#rows st ! unat (mIndex pos)#}
     \<and> mIndex it = mIndex pos"
proof -
  let ?i = "unat (mIndex pos)" and ?s = "unat (mNumElements st)"
  let ?st' = "unsorted_erased st (mIndex pos)"
  have lt': "?i < ?s" using lt by (simp add: word_less_nat_alt)
  have s0: "mNumElements st \<noteq> 0" using lt by auto
  have s1: "unat (mNumElements st - 1) = ?s - 1" using s0 by (rule unat_minus_one)
  have lst: "mNumElements st - 1 < mNumElements st"
    using s0 s1 by (simp add: word_less_nat_alt unat_gt_0)
  have slot: "leaf_mem (leaves ?st' ! c) k =
      (if k = ?s - 1 then Raw else if k = ?i then leaf_mem (leaves st ! c) (?s - 1)
       else leaf_mem (leaves st ! c) k)" if "c < length (leaves st)" for c k
    using that by (simp add: unsorted_erased_def s1 erase_unsorted_slot [OF lt'])
  have at': "tv_at ?st' j = Some (map (\<lambda>leaf. if unat j = ?i then leaf_mem leaf (?s - 1)
                                       else leaf_mem leaf (unat j)) (leaves st))"
    if "j < mNumElements st - 1" for j
  proof -
    have "unat j \<noteq> ?s - 1" using that s1 by (simp add: word_less_nat_alt)
    then show ?thesis using that
      by (simp add: tv_at_def unsorted_erased_def s1 erase_unsorted_slot [OF lt'] o_def)
  qed
  have p1: "tv_at ?st' (mIndex pos) = tv_at st (mNumElements st - 1)"
    if "mIndex pos < mNumElements st - 1"
    using that lst by (simp add: at' s1) (simp add: tv_at_def s1)
  have p2: "tv_at ?st' (mIndex pos) = None" if "mIndex pos = mNumElements st - 1"
    using that by (simp add: tv_at_def unsorted_erased_def)
  have p3: "tv_at ?st' j = tv_at st j" if "j < mNumElements st - 1" "j \<noteq> mIndex pos" for j
  proof -
    have "unat j \<noteq> ?i" using that by (simp add: word_unat_eq_iff)
    moreover have "j < mNumElements st" using that lst by simp
    ultimately show ?thesis using that by (simp add: at') (simp add: tv_at_def)
  qed
  have r: "mset (rows ?st') = mset (rows st) - {#rows st ! ?i#}"
  proof -
    have len: "length (rows st) = ?s" by (simp add: rows_def)
    have "rows ?st' = map (\<lambda>k. map (\<lambda>leaf.
              std_destroy (std_move (leaf_mem leaf) (?s - 1) ?s ?i) (?s - 1) ?s k)
                                (leaves st)) [0..<?s - 1]"
      by (simp add: rows_def unsorted_erased_def s1 o_def)
    also have "\<dots> = map (\<lambda>k. if k = ?i then rows st ! (?s - 1) else rows st ! k) [0..<?s - 1]"
      using lt' by (intro map_cong [OF refl]) (auto simp: erase_unsorted_slot [OF lt'] rows_def)
    finally have "rows ?st' =
       map (\<lambda>k. if k = ?i then rows st ! (length (rows st) - 1) else rows st ! k)
           [0..<length (rows st) - 1]"
      by (simp add: len)
    then show ?thesis using mset_swap_last [of ?i "rows st"] lt' len by simp
  qed
  have "erase_unsorted st pos = Done (?st', iterator_at ?st' (mIndex pos))"
    using v by (rule erase_unsorted_Done)
  moreover have "mNumElements ?st' = mNumElements st - 1" by (simp add: unsorted_erased_def)
  moreover have "unat (mNumElements ?st') = ?s - 1" using s1 by (simp add: unsorted_erased_def)
  moreover have "mIndex (iterator_at ?st' (mIndex pos)) = mIndex pos"
    by (simp add: iterator_at_def)
  ultimately show ?thesis using p1 p2 p3 r by blast
qed


lemma valid_ex_vec:
  "validate_iterator ex_vec (iterator_at ex_vec 0) \<noteq> isf_none"
  "validate_iterator ex_vec (iterator_at ex_vec 1) \<noteq> isf_none"
  "validate_iterator ex_vec (iterator_at ex_vec 2) \<noteq> isf_none"
  "validate_iterator ex_vec (iterator_at ex_vec 3) \<noteq> isf_none"
  by (simp_all add: validate_iterator_def iterator_at_def ex_vec_def isf_flags_nonzero)

text \<open>
  At the last position the slot is destroyed: after \<open>erase_unsorted\<close> at index 2 of
  \<open>[10, 20, 30]\<close> the size is 2, \<open>at(2)\<close> fails its assertion and slot 2 is raw storage,
  so index 2 does not hold the value 30 that was at index \<open>s - 1\<close>.
\<close>

theorem erase_unsorted_counterexample:
  "mIndex (iterator_at ex_vec 2) < mNumElements ex_vec
   \<and> tv_at ex_vec (mNumElements ex_vec - 1) = Some [Obj 30]
   \<and> map_option (\<lambda>r. mNumElements (fst r)) (returned (erase_unsorted ex_vec (iterator_at ex_vec 2)))
       = Some 2
   \<and> map_option (\<lambda>r. tv_at (fst r) 2) (returned (erase_unsorted ex_vec (iterator_at ex_vec 2)))
       = Some None
   \<and> map_option (\<lambda>r. leaf_mem (leaves (fst r) ! 0) 2)
         (returned (erase_unsorted ex_vec (iterator_at ex_vec 2))) = Some Raw"
  by (simp add: erase_unsorted_Done [OF valid_ex_vec(3)] unsorted_erased_def)
     (simp add: ex_vec_def iterator_at_def tv_at_def mem_of_list_def std_destroy_nth)

theorem erase_unsorted_effect_witness:
  "validate_iterator ex_vec (iterator_at ex_vec 0) \<noteq> isf_none
   \<and> mIndex (iterator_at ex_vec 0) < mNumElements ex_vec
   \<and> (\<exists>st' it. erase_unsorted ex_vec (iterator_at ex_vec 0) = Done (st', it)
        \<and> mNumElements st' = 2
        \<and> tv_at st' 0 = Some [Obj 30]
        \<and> tv_at st' 1 = Some [Obj 20]
        \<and> mset (rows st') = {#[Obj 30], [Obj 20]#}
        \<and> mIndex it = 0)"
proof -
  have lt: "mIndex (iterator_at ex_vec 0) < mNumElements ex_vec"
    by (simp add: iterator_at_def ex_vec_def)
  have x: "mIndex (iterator_at ex_vec 0) = 0" "mNumElements ex_vec = 3"
    "tv_at ex_vec 2 = Some [Obj 30]" "tv_at ex_vec 1 = Some [Obj 20]"
    by (simp_all add: iterator_at_def ex_vec_def tv_at_def mem_of_list_def)
  from erase_unsorted_effect [OF valid_ex_vec(1) lt]
  obtain st' it where r: "erase_unsorted ex_vec (iterator_at ex_vec 0) = Done (st', it)"
    "mNumElements st' = mNumElements ex_vec - 1"
    "mIndex (iterator_at ex_vec 0) < mNumElements ex_vec - 1 \<longrightarrow>
       tv_at st' (mIndex (iterator_at ex_vec 0)) = tv_at ex_vec (mNumElements ex_vec - 1)"
    "\<forall>j. j < mNumElements ex_vec - 1 \<longrightarrow> j \<noteq> mIndex (iterator_at ex_vec 0) \<longrightarrow>
       tv_at st' j = tv_at ex_vec j"
    "mset (rows st') = mset (rows ex_vec) - {#rows ex_vec ! unat (mIndex (iterator_at ex_vec 0))#}"
    "mIndex it = mIndex (iterator_at ex_vec 0)"
    by blast
  have "mNumElements st' = 2" using r(2) by (simp add: x)
  moreover have "tv_at st' 0 = Some [Obj 30]" using r(3) by (simp add: x)
  moreover have "tv_at st' 1 = Some [Obj 20]" using r(4) by (simp add: x)
  moreover have "mset (rows st') = {#[Obj 30], [Obj 20]#}" using r(5) by (simp add: x rows_ex_vec)
  moreover have "mIndex it = 0" using r(6) by (simp add: x)
  ultimately show ?thesis using r(1) valid_ex_vec(1) lt by blast
qed


subsection \<open>insert without reallocation\<close>

lemma std_fill_nth: "std_fill m a b v k = (if a \<le> k \<and> k < b then Obj v else m k)"
  by (auto simp: std_fill_def fill_loop_nth)

lemma std_uninitialized_fill_nth:
  "std_uninitialized_fill m a b v k = (if a \<le> k \<and> k < b then Obj v else m k)"
  by (auto simp: std_uninitialized_fill_def fill_loop_nth)

lemma std_uninitialized_fill_n_nth:
  "std_uninitialized_fill_n m a n v k = (if a \<le> k \<and> k < a + n then Obj v else m k)"
  by (auto simp: std_uninitialized_fill_n_def fill_loop_nth)

lemma std_uninitialized_move_nth:
  "d \<le> a \<or> b \<le> d \<Longrightarrow> a \<le> b \<Longrightarrow>
   std_uninitialized_move m a b d k = (if d \<le> k \<and> k < d + (b - a) then m (a + (k - d)) else m k)"
  by (simp add: std_uninitialized_move_def move_loop_nth)

lemma std_move_backward_nth:
  "a \<le> b \<Longrightarrow> b \<le> dl \<Longrightarrow>
   std_move_backward m a b dl k = (if dl - (b - a) \<le> k \<and> k < dl then m (b - (dl - k)) else m k)"
  by (simp add: std_move_backward_def move_backward_loop_nth)

lemma insert_slot_lt:
  assumes "p \<le> s" "n < s - p"
  shows "std_fill (std_move_backward (std_uninitialized_move m (s - n) s s) p (s - n) s) p (p + n) v k
         = ins_slot m p n s v k"
proof -
  have um: "std_uninitialized_move m (s - n) s s j = (if s \<le> j \<and> j < s + n then m (j - n) else m j)" for j
  proof -
    have "s - (s - n) = n" using assms by arith
    moreover have "s \<le> j \<Longrightarrow> s - n + (j - s) = j - n" using assms by arith
    ultimately show ?thesis using assms by (simp add: std_uninitialized_move_nth)
  qed
  have mb: "std_move_backward m' p (s - n) s j =
      (if p + n \<le> j \<and> j < s then m' (j - n) else m' j)" for m' :: "'a mem" and j
  proof -
    have "s - (s - n - p) = p + n" using assms by arith
    moreover have "j < s \<Longrightarrow> p + n \<le> j \<Longrightarrow> s - n - (s - j) = j - n" using assms by arith
    ultimately show ?thesis using assms by (simp add: std_move_backward_nth)
  qed
  show ?thesis
    unfolding std_fill_nth mb um ins_slot_def using assms by auto
qed

lemma insert_slot_ge:
  assumes "p \<le> s" "s - p \<le> n"
  shows "std_fill (std_uninitialized_move (std_uninitialized_fill_n m s (n - (s - p)) v)
                      p s (s + n - (s - p))) p s v k
         = ins_slot m p n s v k"
proof -
  have d: "s + n - (s - p) = p + n" using assms by arith
  have fn: "std_uninitialized_fill_n m s (n - (s - p)) v j =
      (if s \<le> j \<and> j < p + n then Obj v else m j)" for j
  proof -
    have "s + (n - (s - p)) = p + n" using assms by arith
    then show ?thesis by (simp add: std_uninitialized_fill_n_nth)
  qed
  have um: "std_uninitialized_move m' p s (p + n) j =
      (if p + n \<le> j \<and> j < s + n then m' (j - n) else m' j)" for m' :: "'a mem" and j
  proof -
    have "p + n + (s - p) = s + n" using assms by arith
    moreover have "p + n \<le> j \<Longrightarrow> p + (j - (p + n)) = j - n" by arith
    moreover have "s \<le> p + n" using assms by arith
    ultimately show ?thesis using assms by (simp add: std_uninitialized_move_nth)
  qed
  show ?thesis
    unfolding d std_fill_nth um fn ins_slot_def using assms by auto
qed

lemma insert_slot_append:
  "std_uninitialized_fill m s (s + n) v k = ins_slot m s n s v k"
  by (auto simp: std_uninitialized_fill_nth ins_slot_def)

lemma DoInsertAndFill_slot:
  assumes "pos \<le> se"
  shows "leaf_mem (DoInsertAndFill leaf pos n se arg) k
     = ins_slot (leaf_mem leaf) (unat pos) (unat n) (unat se) arg k"
proof -
  have ps: "unat pos \<le> unat se" using assms by (simp add: word_le_nat_alt)
  have ex: "unat (se - pos) = unat se - unat pos" using assms by (rule unat_sub)
  show ?thesis
  proof (cases "n < se - pos")
    case True
    then have "unat n < unat se - unat pos" by (simp add: word_less_nat_alt ex)
    from insert_slot_lt [OF ps this] True show ?thesis
      by (simp add: DoInsertAndFill_def Let_def)
  next
    case False
    then have le: "se - pos \<le> n" by simp
    then have c: "unat se - unat pos \<le> unat n" by (simp add: word_le_nat_alt ex)
    have "unat (n - (se - pos)) = unat n - (unat se - unat pos)"
      using le by (simp add: unat_sub ex)
    with insert_slot_ge [OF ps c] False show ?thesis
      by (simp add: DoInsertAndFill_def Let_def ex)
  qed
qed


lemma map2_left: "length xs = length ys \<Longrightarrow> map2 (\<lambda>x y. f x) xs ys = map f xs"
  by (induction xs ys rule: list_induct2) simp_all

lemma map2_right: "length xs = length ys \<Longrightarrow> map2 (\<lambda>x y. g y) xs ys = map g ys"
  by (induction xs ys rule: list_induct2) simp_all

lemma map_map2: "map h (map2 f xs ys) = map2 (\<lambda>x y. h (f x y)) xs ys"
  by (simp add: case_prod_unfold)

lemma rows_insert:
  assumes "p \<le> s"
  shows "map (\<lambda>k. if k < p then R k else if k < p + n then A else R (k - n)) [0..<s + n]
       = take p (map R [0..<s]) @ replicate n A @ drop p (map R [0..<s])"
proof (rule nth_equalityI)
  show "length (map (\<lambda>k. if k < p then R k else if k < p + n then A else R (k - n)) [0..<s + n]) =
    length (take p (map R [0..<s]) @ replicate n A @ drop p (map R [0..<s]))"
    using assms by simp
next
  fix i assume "i < length (map (\<lambda>k. if k < p then R k else if k < p + n then A else R (k - n)) [0..<s + n])"
  then have i: "i < s + n" by simp
  show "map (\<lambda>k. if k < p then R k else if k < p + n then A else R (k - n)) [0..<s + n] ! i =
        (take p (map R [0..<s]) @ replicate n A @ drop p (map R [0..<s])) ! i"
  proof (cases "i < p")
    case True
    with i assms show ?thesis by (simp add: nth_append)
  next
    case np: False
    show ?thesis
    proof (cases "i < p + n")
      case True
      with np have "i - p < n" by arith
      with True np i assms show ?thesis by (simp add: nth_append min_def)
    next
      case False
      with np i assms have "p + (i - p - n) < s" "p + (i - p - n) = i - n" "\<not> i - p < n"
        by arith+
      with False np i assms show ?thesis by (simp add: nth_append min_def)
    qed
  qed
qed

lemma DoInsertAndFill_eq:
  assumes "pos \<le> se"
  shows "DoInsertAndFill leaf pos n se arg
     = leaf\<lparr>leaf_mem := ins_slot (leaf_mem leaf) (unat pos) (unat n) (unat se) arg\<rparr>"
proof -
  have "leaf_mem (DoInsertAndFill leaf pos n se arg)
      = ins_slot (leaf_mem leaf) (unat pos) (unat n) (unat se) arg"
    by (rule ext) (rule DoInsertAndFill_slot [OF assms])
  moreover have "DoInsertAndFill leaf pos n se arg
      = leaf\<lparr>leaf_mem := leaf_mem (DoInsertAndFill leaf pos n se arg)\<rparr>"
    by (simp add: DoInsertAndFill_def Let_def)
  ultimately show ?thesis by simp
qed

lemma insert_n_Done:
  assumes v: "validate_iterator st pos \<noteq> isf_none"
      and cap: "unat (mNumElements st) + unat n \<le> unat (mNumCapacity st)"
  shows "insert_n h st pos n args =
     Done (h, inserted st (mIndex pos) n args, iterator_at (inserted st (mIndex pos) n args) (mIndex pos))"
proof -
  have ps: "mIndex pos \<le> mNumElements st" using v by (rule validate_iterator_index)
  have "unat (mNumElements st) + unat n < 2 ^ 64"
    using cap unsigned_less [of "mNumCapacity st", where 'a = nat] by simp
  then have new: "unat (mNumElements st + n) = unat (mNumElements st) + unat n"
    by (simp add: unat_add_lem [THEN iffD1])
  then have nogrow: "\<not> mNumElements st + n > mNumCapacity st"
    using cap by (simp add: word_less_nat_alt)
  show ?thesis
  proof (cases "mIndex pos = mNumElements st")
    case True
    have "std_uninitialized_fill m (unat (mNumElements st)) (unat (mNumElements st) + unat n) a
        = ins_slot m (unat (mNumElements st)) (unat n) (unat (mNumElements st)) a" for m :: "'a mem" and a
      by (rule ext) (rule insert_slot_append)
    then show ?thesis using v nogrow True
      by (simp add: insert_n_def Let_def inserted_def new)
  next
    case False
    have e: "(\<lambda>leaf. DoInsertAndFill leaf (mIndex pos) n (mNumElements st)) =
        (\<lambda>leaf arg. leaf\<lparr>leaf_mem := ins_slot (leaf_mem leaf) (unat (mIndex pos)) (unat n)
                                            (unat (mNumElements st)) arg\<rparr>)"
      by (intro ext) (rule DoInsertAndFill_eq [OF ps])
    show ?thesis using v nogrow False
      by (simp add: insert_n_def Let_def inserted_def e)
  qed
qed


text \<open>
  Claim C5. Let \<open>insert(pos, n, args...)\<close> be called with a valid \<open>pos\<close> at \<open>p \<le> s\<close> and
  \<open>s + n\<close> within the capacity, so that no reallocation is triggered. Then it returns with the
  heap untouched and size \<open>s + n\<close>; the rows are the old rows with \<open>n\<close> copies of \<open>args\<close> at
  \<open>[p, p + n)\<close>, the old elements in their order around them; capacity and pointers are
  unchanged and the returned iterator is at \<open>p\<close>. When \<open>p < s\<close> every column is changed by
  \<open>DoInsertAndFill\<close> with the same \<open>(pos, n, size)\<close>, and its branch is decided by
  \<open>n < size - pos\<close> alone: if so the last \<open>n\<close> elements are moved into the raw slots after the
  end, the rest of the tail is moved backward and the gap is filled; otherwise the raw part
  of the gap is filled, the tail is moved behind it and the live part of the gap is filled.
\<close>

theorem insert_in_place:
  assumes v: "validate_iterator st pos \<noteq> isf_none"
      and cap: "unat (mNumElements st) + unat n \<le> unat (mNumCapacity st)"
      and len: "length args = length (leaves st)"
  shows "\<exists>st' it. insert_n h st pos n args = Done (h, st', it)
     \<and> unat (mNumElements st') = unat (mNumElements st) + unat n
     \<and> rows st' = take (unat (mIndex pos)) (rows st) @ replicate (unat n) (map Obj args)
                    @ drop (unat (mIndex pos)) (rows st)
     \<and> mNumCapacity st' = mNumCapacity st \<and> mpData st' = mpData st
     \<and> map leaf_mpData (leaves st') = map leaf_mpData (leaves st)
     \<and> mIndex it = mIndex pos
     \<and> (mIndex pos \<noteq> mNumElements st \<longrightarrow>
          leaves st' = map2 (\<lambda>leaf arg. DoInsertAndFill leaf (mIndex pos) n (mNumElements st) arg)
                            (leaves st) args)
     \<and> (\<forall>leaf arg. leaf_mem (DoInsertAndFill leaf (mIndex pos) n (mNumElements st) arg) =
          (if n < mNumElements st - mIndex pos
           then std_fill (std_move_backward
                   (std_uninitialized_move (leaf_mem leaf) (unat (mNumElements st) - unat n)
                      (unat (mNumElements st)) (unat (mNumElements st)))
                   (unat (mIndex pos)) (unat (mNumElements st) - unat n) (unat (mNumElements st)))
                 (unat (mIndex pos)) (unat (mIndex pos) + unat n) arg
           else std_fill (std_uninitialized_move
                   (std_uninitialized_fill_n (leaf_mem leaf) (unat (mNumElements st))
                      (unat (n - (mNumElements st - mIndex pos))) arg)
                   (unat (mIndex pos)) (unat (mNumElements st))
                   (unat (mNumElements st) + unat n - unat (mNumElements st - mIndex pos)))
                 (unat (mIndex pos)) (unat (mNumElements st)) arg))"
proof -
  let ?p = "unat (mIndex pos)" and ?s = "unat (mNumElements st)" and ?n = "unat n"
  let ?st' = "inserted st (mIndex pos) n args"
  have ps: "mIndex pos \<le> mNumElements st" using v by (rule validate_iterator_index)
  then have ps': "?p \<le> ?s" by (simp add: word_le_nat_alt)
  have "?s + ?n < 2 ^ 64"
    using cap unsigned_less [of "mNumCapacity st", where 'a = nat] by simp
  then have new: "unat (mNumElements st + n) = ?s + ?n"
    by (simp add: unat_add_lem [THEN iffD1])
  have d: "insert_n h st pos n args = Done (h, ?st', iterator_at ?st' (mIndex pos))"
    using v cap by (rule insert_n_Done)
  have sz: "unat (mNumElements ?st') = ?s + ?n" using new by (simp add: inserted_def)
  have r: "rows ?st' = take ?p (rows st) @ replicate ?n (map Obj args) @ drop ?p (rows st)"
  proof -
    have row: "map (\<lambda>leaf. leaf_mem leaf k) (leaves ?st') =
        (if k < ?p then map (\<lambda>leaf. leaf_mem leaf k) (leaves st)
         else if k < ?p + ?n then map Obj args
         else map (\<lambda>leaf. leaf_mem leaf (k - ?n)) (leaves st))" if "k < ?s + ?n" for k
    proof -
      have m: "map (\<lambda>leaf. leaf_mem leaf k) (leaves ?st') =
          map2 (\<lambda>leaf arg. ins_slot (leaf_mem leaf) ?p ?n ?s arg k) (leaves st) args"
        using len by (auto simp: inserted_def)
      show ?thesis
      proof (cases "k < ?p")
        case True
        then have "ins_slot m' ?p ?n ?s a k = m' k" for m' :: "'a mem" and a
          by (simp add: ins_slot_def)
        with True len show ?thesis by (simp add: m map2_left)
      next
        case np: False
        show ?thesis
        proof (cases "k < ?p + ?n")
          case True
          with np have "ins_slot m' ?p ?n ?s a k = Obj a" for m' :: "'a mem" and a
            by (simp add: ins_slot_def)
          with True np len show ?thesis by (simp add: m map2_right)
        next
          case False
          with np that have "ins_slot m' ?p ?n ?s a k = m' (k - ?n)" for m' :: "'a mem" and a
            by (simp add: ins_slot_def)
          with False np len show ?thesis by (simp add: m map2_left)
        qed
      qed
    qed
    have "rows ?st' = map (\<lambda>k. map (\<lambda>leaf. leaf_mem leaf k) (leaves ?st')) [0..<?s + ?n]"
      by (simp add: rows_def sz)
    also have "\<dots> = map (\<lambda>k. if k < ?p then map (\<lambda>leaf. leaf_mem leaf k) (leaves st)
         else if k < ?p + ?n then map Obj args
         else map (\<lambda>leaf. leaf_mem leaf (k - ?n)) (leaves st)) [0..<?s + ?n]"
      by (rule map_cong [OF refl]) (simp add: row)
    also have "\<dots> = take ?p (rows st) @ replicate ?n (map Obj args) @ drop ?p (rows st)"
      unfolding rows_def by (rule rows_insert [OF ps'])
    finally show ?thesis .
  qed
  have frame: "mNumCapacity ?st' = mNumCapacity st" "mpData ?st' = mpData st"
    by (simp_all add: inserted_def)
  have ptrs: "map leaf_mpData (leaves ?st') = map leaf_mpData (leaves st)"
    using len by (intro nth_equalityI) (auto simp: inserted_def)
  have it: "mIndex (iterator_at ?st' (mIndex pos)) = mIndex pos" by (simp add: iterator_at_def)
  have lockstep: "leaves ?st' =
      map2 (\<lambda>leaf arg. DoInsertAndFill leaf (mIndex pos) n (mNumElements st) arg) (leaves st) args"
    by (simp add: inserted_def DoInsertAndFill_eq [OF ps])
  have branch: "\<forall>leaf arg. leaf_mem (DoInsertAndFill leaf (mIndex pos) n (mNumElements st) arg) =
          (if n < mNumElements st - mIndex pos
           then std_fill (std_move_backward
                   (std_uninitialized_move (leaf_mem leaf) (?s - ?n) ?s ?s) ?p (?s - ?n) ?s)
                 ?p (?p + ?n) arg
           else std_fill (std_uninitialized_move
                   (std_uninitialized_fill_n (leaf_mem leaf) ?s
                      (unat (n - (mNumElements st - mIndex pos))) arg)
                   ?p ?s (?s + ?n - unat (mNumElements st - mIndex pos)))
                 ?p ?s arg)"
    by (simp add: DoInsertAndFill_def Let_def)
  from d sz r frame ptrs it lockstep branch show ?thesis by blast
qed


theorem insert_in_place_witness:
  "validate_iterator ex_vec (iterator_at ex_vec 1) \<noteq> isf_none
   \<and> unat (mNumElements ex_vec) + unat (2 :: size_type) \<le> unat (mNumCapacity ex_vec)
   \<and> length [7 :: int] = length (leaves ex_vec)
   \<and> (\<exists>st' it. insert_n ex_heap ex_vec (iterator_at ex_vec 1) 2 [7] = Done (ex_heap, st', it)
        \<and> unat (mNumElements st') = 5
        \<and> rows st' = [[Obj 10], [Obj 7], [Obj 7], [Obj 20], [Obj 30]]
        \<and> mNumCapacity st' = 6 \<and> mpData st' = 4096 \<and> mIndex it = 1)
   \<and> (\<exists>st' it. insert_n ex_heap ex_vec (iterator_at ex_vec 1) 1 [7] = Done (ex_heap, st', it)
        \<and> rows st' = [[Obj 10], [Obj 7], [Obj 20], [Obj 30]])"
proof -
  have c2: "unat (mNumElements ex_vec) + unat (2 :: size_type) \<le> unat (mNumCapacity ex_vec)"
    and c1: "unat (mNumElements ex_vec) + unat (1 :: size_type) \<le> unat (mNumCapacity ex_vec)"
    and l: "length [7 :: int] = length (leaves ex_vec)"
    by (simp_all add: ex_vec_def)
  have x: "unat (mNumElements ex_vec) = 3" "mNumCapacity ex_vec = 6" "mpData ex_vec = 4096"
    "unat (mIndex (iterator_at ex_vec 1)) = 1" "mIndex (iterator_at ex_vec 1) = 1"
    by (simp_all add: ex_vec_def iterator_at_def)
  from insert_in_place [OF valid_ex_vec(2) c2 l, of ex_heap]
  obtain st' it where a: "insert_n ex_heap ex_vec (iterator_at ex_vec 1) 2 [7] = Done (ex_heap, st', it)"
    "unat (mNumElements st') = unat (mNumElements ex_vec) + unat (2 :: size_type)"
    "rows st' = take (unat (mIndex (iterator_at ex_vec 1))) (rows ex_vec)
        @ replicate (unat (2 :: size_type)) (map Obj [7])
        @ drop (unat (mIndex (iterator_at ex_vec 1))) (rows ex_vec)"
    "mNumCapacity st' = mNumCapacity ex_vec" "mpData st' = mpData ex_vec"
    "mIndex it = mIndex (iterator_at ex_vec 1)"
    by blast
  from insert_in_place [OF valid_ex_vec(2) c1 l, of ex_heap]
  obtain st'' it' where b: "insert_n ex_heap ex_vec (iterator_at ex_vec 1) 1 [7] = Done (ex_heap, st'', it')"
    "rows st'' = take (unat (mIndex (iterator_at ex_vec 1))) (rows ex_vec)
        @ replicate (unat (1 :: size_type)) (map Obj [7])
        @ drop (unat (mIndex (iterator_at ex_vec 1))) (rows ex_vec)"
    by blast
  have "unat (mNumElements st') = 5" using a(2) by (simp add: x)
  moreover have "rows st' = [[Obj 10], [Obj 7], [Obj 7], [Obj 20], [Obj 30]]"
  proof -
    have "replicate 2 a = [a, a]" for a :: "int slot list" by (simp add: numeral_2_eq_2)
    then show ?thesis using a(3) by (simp add: x rows_ex_vec)
  qed
  moreover have "mNumCapacity st' = 6" "mpData st' = 4096" "mIndex it = 1"
    using a(4,5,6) by (simp_all add: x)
  moreover have "rows st'' = [[Obj 10], [Obj 7], [Obj 20], [Obj 30]]"
    using b(2) by (simp add: x rows_ex_vec)
  ultimately show ?thesis using a(1) b(1) valid_ex_vec(2) c2 l by blast
qed


subsection \<open>The layout\<close>

lemma unat_of_nat_small: "x < 2 ^ 64 \<Longrightarrow> unat (of_nat x :: size_type) = x"
  by (simp add: unat_of_nat)

lemma and_not_mask_eq: "(x :: size_type) AND NOT (mask k) = push_bit k (drop_bit k x)"
  by (rule bit_word_eqI) (auto simp: bit_simps)

lemma unat_and_not_mask: "unat ((x :: size_type) AND NOT (mask k)) = (unat x div 2 ^ k) * 2 ^ k"
proof -
  have le: "(unat x div 2 ^ k) * 2 ^ k \<le> unat x"
    by (rule div_times_less_eq_dividend)
  have "unat x < 2 ^ 64" using unsigned_less [of x, where 'a = nat] by simp
  with le have lt: "(unat x div 2 ^ k) * 2 ^ k < 2 ^ 64" by (rule le_less_trans)
  have "unat (push_bit k (drop_bit k x)) = take_bit 64 (push_bit k (drop_bit k (unat x)))"
    by (simp add: unsigned_push_bit_eq unat_drop_bit_eq)
  also have "\<dots> = (unat x div 2 ^ k) * 2 ^ k"
    using lt by (simp only: push_bit_nat_def drop_bit_nat_def take_bit_nat_eq_self)
  finally show ?thesis by (simp only: and_not_mask_eq)
qed

lemma CalculatAllocationOffset_pow2:
  assumes al: "snd T = 2 ^ k"
      and fit: "unat offset + 2 ^ k - 1 < 2 ^ 64"
  shows "unat (CalculatAllocationOffset T offset) = align_up (unat offset) (2 ^ k)"
proof -
  have m: "NOT ((2 :: size_type) ^ k) + 1 = NOT (mask k)"
    unfolding minus_eq_not_plus_1 [symmetric] by (rule minus_exp_eq_not_mask)
  have "of_nat (2 ^ k - 1) = (2 :: size_type) ^ k - 1"
    by (simp add: of_nat_diff)
  have "of_nat (unat offset + (2 ^ k - 1)) = (of_nat (unat offset) :: size_type) + of_nat (2 ^ k - 1)"
    by (rule of_nat_add)
  also have "\<dots> = offset + ((2 :: size_type) ^ k - 1)"
    unfolding \<open>of_nat (2 ^ k - 1) = (2 :: size_type) ^ k - 1\<close> by simp
  also have "\<dots> = offset + 2 ^ k - 1" by simp
  finally have "of_nat (unat offset + (2 ^ k - 1)) = offset + 2 ^ k - 1" .
  moreover have "unat offset + (2 ^ k - 1) = unat offset + 2 ^ k - 1" by simp
  ultimately have "offset + 2 ^ k - 1 = of_nat (unat offset + 2 ^ k - 1)"
    by (simp only:)
  then have "unat (offset + 2 ^ k - 1) = unat offset + 2 ^ k - 1"
    using fit by (simp only: unat_of_nat_small)
  then show ?thesis
    unfolding CalculatAllocationOffset_def al m unat_and_not_mask align_up_def by (simp only:)
qed

lemma align_up_ge: "0 < a \<Longrightarrow> x \<le> align_up x a"
proof -
  assume a: "0 < a"
  have "x + a - 1 = (x + a - 1) div a * a + (x + a - 1) mod a" by simp
  moreover have "(x + a - 1) mod a < a" using a by (rule mod_less_divisor)
  ultimately show ?thesis unfolding align_up_def using a by linarith
qed

lemma align_up_dvd: "a dvd align_up x a"
  by (simp add: align_up_def)

lemma align_up_least:
  assumes a: "0 < a" and m: "a dvd m" and x: "x \<le> m"
  shows "align_up x a \<le> m"
proof -
  obtain q where q: "m = a * q" using m by (auto simp: dvd_def)
  have "x + a - 1 < a * (q + 1)" using x a q by simp
  then have "(x + a - 1) div a < q + 1"
    by (simp add: less_mult_imp_div_less mult.commute)
  then have "(x + a - 1) div a \<le> q" by simp
  then have "(x + a - 1) div a * a \<le> q * a" by (rule mult_le_mono1)
  then show ?thesis by (simp add: align_up_def q mult.commute)
qed

lemma align_up_bound:
  assumes "align_up x (2 ^ k) < 2 ^ 64" "k < 64"
  shows "x + 2 ^ k - 1 < (2 :: nat) ^ 64"
proof (rule ccontr)
  assume "\<not> x + 2 ^ k - 1 < (2 :: nat) ^ 64"
  then have ge: "(2 :: nat) ^ 64 \<le> x + 2 ^ k - 1" by simp
  have "(2 :: nat) ^ 64 = 2 ^ (64 - k) * 2 ^ k" using assms(2) by (simp add: power_add [symmetric])
  then have "2 ^ (64 - k) * (2 :: nat) ^ k \<le> x + 2 ^ k - 1" using ge by simp
  then have "2 ^ (64 - k) \<le> (x + 2 ^ k - 1) div 2 ^ k"
    by (simp add: less_eq_div_iff_mult_less_eq)
  then have "2 ^ (64 - k) * (2 :: nat) ^ k \<le> (x + 2 ^ k - 1) div 2 ^ k * 2 ^ k"
    by (rule mult_le_mono1)
  moreover have "(x + 2 ^ k - 1) div 2 ^ k * 2 ^ k < (2 :: nat) ^ 64"
    using assms(1) by (simp only: align_up_def)
  ultimately show False using \<open>(2 :: nat) ^ 64 = 2 ^ (64 - k) * 2 ^ k\<close>
    by linarith
qed


lemma DoAllocate_eq:
  "DoAllocate h Ts cap off =
     (if cap = 0
      then Some (h, (0, GetTotalAllocationSize Ts cap off), map unat (leaf_offsets Ts cap off))
      else case allocate h (GetTotalAllocationSize Ts cap off) of
             None \<Rightarrow> None
           | Some (p, h') \<Rightarrow> Some (h', (p, GetTotalAllocationSize Ts cap off),
                                  map (\<lambda>off. p + unat off) (leaf_offsets Ts cap off)))"
  by (induction Ts arbitrary: off) (auto simp: Let_def split: option.splits)

lemma align_up_zero: "align_up 0 a = 0"
  by (cases "a = 0") (simp_all add: align_up_def)

lemma spec_offsets_eq_from: "spec_offsets cols cap = spec_offsets_from 0 0 cols cap"
  by (cases cols) (auto simp: align_up_zero Let_def)

lemma spec_size_eq_from: "spec_size cols cap = spec_size_from 0 0 cols cap"
  by (cases cols) (auto simp: align_up_zero)

lemma spec_size_from_ge:
  "\<forall>c \<in> set cols. 0 < snd c \<Longrightarrow> poff + psz * cap \<le> spec_size_from poff psz cols cap"
proof (induction cols arbitrary: poff psz)
  case Nil
  then show ?case by simp
next
  case (Cons c cols)
  obtain sz al where c: "c = (sz, al)" by (cases c)
  have al: "0 < al" using Cons.prems c by simp
  have "poff + psz * cap \<le> align_up (poff + psz * cap) al" using al by (rule align_up_ge)
  also have "\<dots> \<le> align_up (poff + psz * cap) al + sz * cap" by simp
  also have "\<dots> \<le> spec_size_from (align_up (poff + psz * cap) al) sz cols cap"
    using Cons.prems by (intro Cons.IH) simp
  finally show ?case by (simp add: c)
qed

lemma spec_offsets_from_props:
  assumes "\<forall>c \<in> set cols. 0 < snd c"
  shows "length (spec_offsets_from poff psz cols cap) = length cols
    \<and> (\<forall>i < length cols. poff + psz * cap \<le> spec_offsets_from poff psz cols cap ! i
          \<and> snd (cols ! i) dvd spec_offsets_from poff psz cols cap ! i
          \<and> spec_offsets_from poff psz cols cap ! i + fst (cols ! i) * cap
               \<le> spec_size_from poff psz cols cap)
    \<and> (\<forall>i j. i < j \<longrightarrow> j < length cols \<longrightarrow>
          spec_offsets_from poff psz cols cap ! i + fst (cols ! i) * cap
            \<le> spec_offsets_from poff psz cols cap ! j)"
  using assms
proof (induction cols arbitrary: poff psz)
  case Nil
  then show ?case by simp
next
  case (Cons c cols)
  obtain sz al where c: "c = (sz, al)" by (cases c)
  let ?off = "align_up (poff + psz * cap) al"
  let ?O = "spec_offsets_from ?off sz cols cap"
  have al: "0 < al" and rest: "\<forall>c \<in> set cols. 0 < snd c" using Cons.prems c by simp_all
  have ge: "poff + psz * cap \<le> ?off" using al by (rule align_up_ge)
  have dv: "al dvd ?off" by (rule align_up_dvd)
  have tot: "?off + sz * cap \<le> spec_size_from ?off sz cols cap"
    using rest by (rule spec_size_from_ge)
  note IH = Cons.IH [OF rest, of ?off sz]
  have e: "spec_offsets_from poff psz (c # cols) cap = ?off # ?O" by (simp add: c Let_def)
  have s: "spec_size_from poff psz (c # cols) cap = spec_size_from ?off sz cols cap"
    by (simp add: c)
  have p1: "length (spec_offsets_from poff psz (c # cols) cap) = length (c # cols)"
    using IH unfolding e by simp
  have p2: "poff + psz * cap \<le> spec_offsets_from poff psz (c # cols) cap ! i
          \<and> snd ((c # cols) ! i) dvd spec_offsets_from poff psz (c # cols) cap ! i
          \<and> spec_offsets_from poff psz (c # cols) cap ! i + fst ((c # cols) ! i) * cap
               \<le> spec_size_from poff psz (c # cols) cap" if "i < length (c # cols)" for i
  proof (cases i)
    case 0
    then show ?thesis using ge dv tot unfolding e s by (simp add: c)
  next
    case (Suc i')
    then have "i' < length cols" using that by simp
    with IH have "?off + sz * cap \<le> ?O ! i'" "snd (cols ! i') dvd ?O ! i'"
      "?O ! i' + fst (cols ! i') * cap \<le> spec_size_from ?off sz cols cap" by blast+
    with ge Suc show ?thesis unfolding e s by simp
  qed
  have p3: "spec_offsets_from poff psz (c # cols) cap ! i + fst ((c # cols) ! i) * cap
            \<le> spec_offsets_from poff psz (c # cols) cap ! j"
    if ij: "i < j" and jl: "j < length (c # cols)" for i j
  proof -
    obtain j' where j: "j = Suc j'" using ij by (cases j) auto
    then have j': "j' < length cols" using jl by simp
    show ?thesis
    proof (cases i)
      case 0
      from IH j' have "?off + sz * cap \<le> ?O ! j'" by blast
      with 0 j show ?thesis unfolding e by (simp add: c)
    next
      case (Suc i')
      then have "i' < j'" using ij j by simp
      with IH j' have "?O ! i' + fst (cols ! i') * cap \<le> ?O ! j'" by blast
      with Suc j show ?thesis unfolding e by simp
    qed
  qed
  from p1 p2 p3 show ?case by blast
qed


lemma unat_2p: "k < 64 \<Longrightarrow> unat ((2 :: size_type) ^ k) = 2 ^ k"
proof -
  assume k: "k < 64"
  have "(2 :: size_type) ^ k = of_nat (2 ^ k)" by simp
  moreover have "(2 :: nat) ^ k < 2 ^ 64" using k by (simp only: power_strict_increasing_iff one_less_numeral_iff semiring_norm)
  ultimately show ?thesis by (simp only: unat_of_nat_small)
qed

lemma unat_add_mult:
  assumes "unat a + unat b * unat c < 2 ^ 64"
  shows "unat (a + b * c :: size_type) = unat a + unat b * unat c"
proof -
  have "unat b * unat c < 2 ^ 64" using assms by simp
  then have m: "unat (b * c) = unat b * unat c" by (simp add: unat_mult_lem [THEN iffD1])
  then have "unat a + unat (b * c) < 2 ^ 64" using assms by simp
  then have "unat (a + b * c) = unat a + unat (b * c)" by (simp add: unat_add_lem [THEN iffD1])
  with m show ?thesis by simp
qed

lemma layout_from:
  assumes "\<forall>T \<in> set Ts. \<exists>k<64. snd T = 2 ^ k"
      and "unat offset = poff + psz * unat cap"
      and "spec_size_from poff psz (map nat_col Ts) (unat cap) < 2 ^ 64"
  shows "map unat (leaf_offsets Ts cap offset) = spec_offsets_from poff psz (map nat_col Ts) (unat cap)
       \<and> unat (GetTotalAllocationSize Ts cap offset) = spec_size_from poff psz (map nat_col Ts) (unat cap)"
  using assms
proof (induction Ts arbitrary: offset poff psz)
  case Nil
  then show ?case by simp
next
  case (Cons T Ts)
  obtain k where k: "k < 64" and al: "snd T = 2 ^ k" using Cons.prems(1) by auto
  have rest: "\<forall>T \<in> set Ts. \<exists>k<64. snd T = 2 ^ k" using Cons.prems(1) by simp
  have pos: "\<forall>c \<in> set (map nat_col Ts). 0 < snd c"
    using rest by (auto simp: nat_col_def unat_2p)
  have nc: "nat_col T = (unat (fst T), 2 ^ k)" by (simp add: nat_col_def al unat_2p [OF k])
  let ?off = "align_up (poff + psz * unat cap) (2 ^ k)"
  have sz: "spec_size_from ?off (unat (fst T)) (map nat_col Ts) (unat cap) < 2 ^ 64"
    using Cons.prems(3) by (simp add: nc)
  have "?off + unat (fst T) * unat cap
      \<le> spec_size_from ?off (unat (fst T)) (map nat_col Ts) (unat cap)"
    using pos by (rule spec_size_from_ge)
  from this sz have end_lt: "?off + unat (fst T) * unat cap < 2 ^ 64" by (rule le_less_trans)
  then have "?off < 2 ^ 64" by simp
  then have "unat offset + 2 ^ k - 1 < 2 ^ 64"
    unfolding Cons.prems(2) [symmetric] using k by (rule align_up_bound)
  with al have o: "unat (CalculatAllocationOffset T offset) = ?off"
    unfolding Cons.prems(2) [symmetric] by (rule CalculatAllocationOffset_pow2)
  have "unat (CalculateAllocationSize T offset cap) = ?off + unat (fst T) * unat cap"
    unfolding CalculateAllocationSize_def using end_lt o by (simp add: unat_add_mult)
  from Cons.IH [OF rest this sz] o show ?case
    by (simp add: nc Let_def)
qed

text \<open>
  Claim C9. Let every \<open>alignof\<close> be a power of two and the layout fit in \<open>std::size_t\<close>: the
  end of the last region, computed without wrap-around, is below \<open>2\<^sup>6\<^sup>4\<close>. The offsets that
  \<open>DoAllocate\<close> adds to the base pointer depend on the column types and the capacity only,
  and are those of the specification: \<open>0\<close> for column 0 and
  \<open>align_up(offset\<^sub>i\<^sub>-\<^sub>1 + sizeof\<^sub>i\<^sub>-\<^sub>1 \<times> capacity, alignof\<^sub>i)\<close> for column \<open>i\<close>; the size
  requested from the allocator is the end of the last region. Each offset is a multiple of
  its column's alignment (so is the address, for a base with that alignment), each region
  ends at or before the start of every later one and within the allocation. For capacity 0
  \<open>DoAllocate\<close> leaves the heap alone and returns a null pointer, and \<open>DoReallocate\<close> stores it.
  Without the bound the property fails: the offsets are computed in \<open>size_type\<close> and wrap.
\<close>

theorem layout_offsets:
  assumes pow2: "\<forall>T \<in> set Ts. \<exists>k<64. snd T = 2 ^ k"
      and fits: "spec_size (map nat_col Ts) (unat cap) < 2 ^ 64"
  shows "DoAllocate h Ts cap 0 =
          (if cap = 0
           then Some (h, (0, GetTotalAllocationSize Ts cap 0), map unat (leaf_offsets Ts cap 0))
           else case allocate h (GetTotalAllocationSize Ts cap 0) of
                  None \<Rightarrow> None
                | Some (p, h') \<Rightarrow> Some (h', (p, GetTotalAllocationSize Ts cap 0),
                                       map (\<lambda>off. p + unat off) (leaf_offsets Ts cap 0)))
     \<and> map unat (leaf_offsets Ts cap 0) = spec_offsets (map nat_col Ts) (unat cap)
     \<and> unat (GetTotalAllocationSize Ts cap 0) = spec_size (map nat_col Ts) (unat cap)
     \<and> (\<forall>i < length Ts.
           unat (snd (Ts ! i)) dvd unat (leaf_offsets Ts cap 0 ! i)
         \<and> (\<forall>p. unat (snd (Ts ! i)) dvd p \<longrightarrow>
                unat (snd (Ts ! i)) dvd p + unat (leaf_offsets Ts cap 0 ! i))
         \<and> unat (leaf_offsets Ts cap 0 ! i) + unat (fst (Ts ! i)) * unat cap
              \<le> unat (GetTotalAllocationSize Ts cap 0))
     \<and> (\<forall>i j. i < j \<longrightarrow> j < length Ts \<longrightarrow>
           unat (leaf_offsets Ts cap 0 ! i) + unat (fst (Ts ! i)) * unat cap
             \<le> unat (leaf_offsets Ts cap 0 ! j))
     \<and> (\<forall>st old. column_types st = Ts \<longrightarrow> cap = 0 \<longrightarrow>
           (\<exists>st'. DoReallocate h (st :: 'v TupleVecImpl) old cap
                    = Done (deallocate h (mpData st) (internalDataSize st), st')
                 \<and> mpData st' = 0 \<and> mNumCapacity st' = 0))"
proof -
  let ?cols = "map nat_col Ts" and ?O = "leaf_offsets Ts cap 0"
  have pos: "\<forall>c \<in> set ?cols. 0 < snd c"
    using pow2 by (auto simp: nat_col_def unat_2p)
  have f: "spec_size_from 0 0 ?cols (unat cap) < 2 ^ 64"
    using fits by (simp only: spec_size_eq_from)
  have "unat (0 :: size_type) = 0 + 0 * unat cap" by simp
  from layout_from [OF pow2 this f]
  have offs: "map unat ?O = spec_offsets ?cols (unat cap)"
    and tot: "unat (GetTotalAllocationSize Ts cap 0) = spec_size ?cols (unat cap)"
    by (simp_all only: spec_offsets_eq_from spec_size_eq_from)
  have len: "length ?O = length Ts"
    using arg_cong [OF offs, of length] spec_offsets_from_props [OF pos, of 0 0 "unat cap"]
    by (simp add: spec_offsets_eq_from)
  have nth: "unat (?O ! i) = spec_offsets_from 0 0 ?cols (unat cap) ! i" if "i < length Ts" for i
    using that len arg_cong [OF offs, of "\<lambda>xs. xs ! i"] by (simp add: spec_offsets_eq_from)
  have cnth: "fst (?cols ! i) = unat (fst (Ts ! i))" "snd (?cols ! i) = unat (snd (Ts ! i))"
    if "i < length Ts" for i
    using that by (simp_all add: nat_col_def)
  note P = spec_offsets_from_props [OF pos, of 0 0 "unat cap"]
  have a: "unat (snd (Ts ! i)) dvd unat (?O ! i)
         \<and> (\<forall>p. unat (snd (Ts ! i)) dvd p \<longrightarrow> unat (snd (Ts ! i)) dvd p + unat (?O ! i))
         \<and> unat (?O ! i) + unat (fst (Ts ! i)) * unat cap \<le> unat (GetTotalAllocationSize Ts cap 0)"
    if i: "i < length Ts" for i
  proof -
    from P i have "snd (?cols ! i) dvd spec_offsets_from 0 0 ?cols (unat cap) ! i"
      "spec_offsets_from 0 0 ?cols (unat cap) ! i + fst (?cols ! i) * unat cap
         \<le> spec_size_from 0 0 ?cols (unat cap)" by simp_all
    then show ?thesis
      unfolding nth [OF i, symmetric] cnth [OF i] tot spec_size_eq_from by simp
  qed
  have b: "unat (?O ! i) + unat (fst (Ts ! i)) * unat cap \<le> unat (?O ! j)"
    if ij: "i < j" and j: "j < length Ts" for i j
  proof -
    have i: "i < length Ts" using ij j by simp
    from P ij j have "spec_offsets_from 0 0 ?cols (unat cap) ! i + fst (?cols ! i) * unat cap
         \<le> spec_offsets_from 0 0 ?cols (unat cap) ! j" by simp
    then show ?thesis
      unfolding nth [OF i, symmetric] nth [OF j, symmetric] cnth [OF i] .
  qed
  have c: "\<exists>st'. DoReallocate h (st :: 'v TupleVecImpl) old cap
                    = Done (deallocate h (mpData st) (internalDataSize st), st')
                 \<and> mpData st' = 0 \<and> mNumCapacity st' = 0"
    if "column_types st = Ts" "cap = 0" for st old
    using that by (simp add: DoReallocate_def DoAllocate_eq Let_def)
  from DoAllocate_eq [of h Ts cap 0] offs tot a b c show ?thesis by blast
qed


theorem layout_offsets_witness:
  "map snd ex_types = [2 ^ 2, 2 ^ 0, 2 ^ 3]
   \<and> spec_size (map nat_col ex_types) (unat (5 :: size_type)) < 2 ^ 64
   \<and> map unat (leaf_offsets ex_types 5 0) = [0, 20, 32]
   \<and> unat (GetTotalAllocationSize ex_types 5 0) = 72
   \<and> DoAllocate ex_heap0 ex_types 5 0 = Some (ex_heap0\<lparr>live := [64]\<rparr>, (64, 72), [64, 84, 96])
   \<and> DoAllocate ex_heap0 ex_types 0 0 = Some (ex_heap0, (0, 0), [0, 0, 0])"
proof -
  have "\<exists>k<64. (4 :: size_type) = 2 ^ k" by (rule exI [of _ 2]) simp
  moreover have "\<exists>k<64. (1 :: size_type) = 2 ^ k" by (rule exI [of _ 0]) simp
  moreover have "\<exists>k<64. (8 :: size_type) = 2 ^ k" by (rule exI [of _ 3]) simp
  ultimately have p: "\<forall>T \<in> set ex_types. \<exists>k<64. snd T = 2 ^ k"
    by (simp add: ex_types_def)
  have s5: "spec_size (map nat_col ex_types) 5 = 72"
    and o5: "spec_offsets (map nat_col ex_types) 5 = [0, 20, 32]"
    and s0: "spec_size (map nat_col ex_types) 0 = 0"
    and o0: "spec_offsets (map nat_col ex_types) 0 = [0, 0, 0]"
    by (simp_all add: ex_types_def nat_col_def align_up_def Let_def)
  have f5: "spec_size (map nat_col ex_types) (unat (5 :: size_type)) < 2 ^ 64"
    and f0: "spec_size (map nat_col ex_types) (unat (0 :: size_type)) < 2 ^ 64"
    by (simp_all add: s5 s0)
  note L5 = layout_offsets [OF p f5, of ex_heap0]
  note L0 = layout_offsets [OF p f0, of ex_heap0]
  have offs: "map unat (leaf_offsets ex_types 5 0) = [0, 20, 32]"
    using L5 [THEN conjunct2, THEN conjunct1] by (simp add: o5)
  have tot: "unat (GetTotalAllocationSize ex_types 5 0) = 72"
    using L5 [THEN conjunct2, THEN conjunct2, THEN conjunct1] by (simp add: s5)
  then have tot': "GetTotalAllocationSize ex_types 5 0 = 72"
    by (simp add: word_unat_eq_iff)
  have tot0: "GetTotalAllocationSize ex_types 0 0 = 0"
    using L0 [THEN conjunct2, THEN conjunct2, THEN conjunct1] by (simp add: s0 word_unat_eq_iff)
  have offs0: "map unat (leaf_offsets ex_types 0 0) = [0, 0, 0]"
    using L0 [THEN conjunct2, THEN conjunct1] by (simp add: o0)
  have m: "map (\<lambda>off. 64 + unat off) (leaf_offsets ex_types 5 0) = [64, 84, 96]"
    using arg_cong [OF offs, of "map (\<lambda>x. 64 + x)"] by (simp add: o_def)
  have a5: "DoAllocate ex_heap0 ex_types 5 0 = Some (ex_heap0\<lparr>live := [64]\<rparr>, (64, 72), [64, 84, 96])"
    using L5 [THEN conjunct1] by (simp add: tot' m allocate_def ex_heap0_def fresh_pick_def)
  have a0: "DoAllocate ex_heap0 ex_types 0 0 = Some (ex_heap0, (0, 0), [0, 0, 0])"
    using L0 [THEN conjunct1] by (simp add: tot0 offs0)
  have q: "map snd ex_types = [2 ^ 2, 2 ^ 0, 2 ^ 3]" by (simp add: ex_types_def)
  from q f5 offs tot a5 a0 show ?thesis by (intro conjI)
qed


text \<open>
  With a 4-byte and an 8-byte column and capacity \<open>2\<^sup>6\<^sup>2\<close> the region of column 0 has
  \<open>2\<^sup>6\<^sup>4\<close> bytes, which is 0 in \<open>size_type\<close>: column 1 gets offset 0, where the recurrence
  gives \<open>2\<^sup>6\<^sup>4\<close>, the requested size is 0, and both Leaf pointers are the base pointer, so
  column 1 starts inside the region of column 0. \<open>reserve\<close> stores that layout.
\<close>

theorem layout_overflow_counterexample:
  "map unat (leaf_offsets ex_wide_types (2 ^ 62) 0) = [0, 0]
   \<and> spec_offsets (map nat_col ex_wide_types) (unat ((2 :: size_type) ^ 62)) = [0, 2 ^ 64]
   \<and> map unat (leaf_offsets ex_wide_types (2 ^ 62) 0)
       \<noteq> spec_offsets (map nat_col ex_wide_types) (unat ((2 :: size_type) ^ 62))
   \<and> GetTotalAllocationSize ex_wide_types (2 ^ 62) 0 = 0
   \<and> DoAllocate ex_heap0 ex_wide_types (2 ^ 62) 0
       = Some (ex_heap0\<lparr>live := [64]\<rparr>, (64, 0), [64, 64])
   \<and> (64 :: nat) < 64 + unat (fst (ex_wide_types ! 0)) * unat ((2 :: size_type) ^ 62)
   \<and> map_option (\<lambda>r. (mNumCapacity (snd r), internalDataSize (snd r),
                        map leaf_mpData (leaves (snd r))))
        (returned (reserve ex_heap0 ex_wide_empty (2 ^ 62)))
       = Some (2 ^ 62, 0, [64, 64])"
proof -
  have o: "map unat (leaf_offsets ex_wide_types (2 ^ 62) 0) = [0, 0]"
    by (simp add: ex_wide_types_def CalculatAllocationOffset_def CalculateAllocationSize_def)
  have so: "spec_offsets (map nat_col ex_wide_types) (unat ((2 :: size_type) ^ 62)) = [0, 2 ^ 64]"
    by (simp add: ex_wide_types_def nat_col_def align_up_def Let_def)
  have ne: "map unat (leaf_offsets ex_wide_types (2 ^ 62) 0)
       \<noteq> spec_offsets (map nat_col ex_wide_types) (unat ((2 :: size_type) ^ 62))"
    unfolding o so by simp
  have t: "GetTotalAllocationSize ex_wide_types (2 ^ 62) 0 = 0"
    by (simp add: ex_wide_types_def CalculatAllocationOffset_def CalculateAllocationSize_def)
  have a: "DoAllocate ex_heap0 ex_wide_types (2 ^ 62) 0
       = Some (ex_heap0\<lparr>live := [64]\<rparr>, (64, 0), [64, 64])"
    by (simp add: ex_wide_types_def CalculatAllocationOffset_def CalculateAllocationSize_def
          allocate_def ex_heap0_def fresh_pick_def Let_def)
  have r: "(64 :: nat) < 64 + unat (fst (ex_wide_types ! 0)) * unat ((2 :: size_type) ^ 62)"
    by (simp add: ex_wide_types_def)
  have v: "map_option (\<lambda>r. (mNumCapacity (snd r), internalDataSize (snd r),
                        map leaf_mpData (leaves (snd r))))
        (returned (reserve ex_heap0 ex_wide_empty (2 ^ 62)))
       = Some (2 ^ 62, 0, [64, 64])"
    by (simp add: reserve_def DoConditionalReallocate_def DoReallocate_def ex_wide_empty_def
          TupleVecImpl_init_def column_types_def ex_wide_types_def CalculatAllocationOffset_def
          CalculateAllocationSize_def allocate_def deallocate_def ex_heap0_def fresh_pick_def
          Let_def DoUninitializedMoveAndDestruct_def)
  from o so ne t a r v show ?thesis by (intro conjI)
qed


subsection \<open>Growth and failed allocations\<close>

lemma move_into_raw:
  "std_uninitialized_move_into src 0 n raw_mem 0 = (\<lambda>k. if k < n then src k else Raw)"
  by (rule ext) (simp add: std_uninitialized_move_into_def move_into_loop_nth raw_mem_def)

lemma DoReallocate_eq:
  "DoReallocate h st oldNumElements requiredCapacity =
     (case DoAllocate h (column_types st) requiredCapacity 0 of
        None \<Rightarrow> BadAlloc (h, st)
      | Some (h1, allocation, ppNewLeaf) \<Rightarrow>
          Done (deallocate h1 (mpData st) (internalDataSize st),
                st\<lparr>leaves := map2 (\<lambda>leaf p. relocated leaf oldNumElements p) (leaves st) ppNewLeaf,
                   mpData := fst allocation,
                   mNumCapacity := requiredCapacity,
                   internalDataSize := snd allocation\<rparr>))"
proof -
  have "map2 (\<lambda>(leaf, new) p. leaf\<lparr>leaf_mpData := p, leaf_mem := new\<rparr>)
          (map (\<lambda>leaf. DoUninitializedMoveAndDestruct leaf 0 oldNumElements raw_mem 0) (leaves st)) ps
      = map2 (\<lambda>leaf p. relocated leaf oldNumElements p) (leaves st) ps" for ps
    by (simp add: zip_map1 DoUninitializedMoveAndDestruct_def Let_def move_into_raw relocated_def
          case_prod_unfold)
  then show ?thesis
    by (simp add: DoReallocate_def Let_def split: option.splits)
qed

lemma push_back_capacity:
  assumes "mNumElements st + 1 > mNumCapacity st"
      and "push_back h st args = Done (h', st')"
  shows "mNumCapacity st' = GetNewCapacity (mNumElements st + 1)"
  using assms
  by (auto simp: push_back_def DoGrow_def DoReallocate_eq Let_def column_types_def
           split: option.splits outcome.splits)

lemma resize_capacity:
  assumes "n > mNumElements st" "n > mNumCapacity st"
      and "resize h st n args = Done (h', st')"
  shows "mNumCapacity st' = max (GetNewCapacity (mNumCapacity st)) n"
  using assms
  by (auto simp: resize_def DoReallocate_eq Let_def column_types_def
           split: option.splits outcome.splits)


lemma push_back_grow_Done:
  assumes "mNumElements st + 1 > mNumCapacity st"
      and "DoAllocate h (column_types st) (GetNewCapacity (mNumElements st + 1)) 0
             = Some (h1, allocation, ptrs)"
  shows "push_back h st args =
     Done (deallocate h1 (mpData st) (internalDataSize st),
           st\<lparr>mNumElements := mNumElements st + 1,
              leaves := map2 (construct_at (unat (mNumElements st)))
                  (map2 (\<lambda>leaf p. relocated leaf (mNumElements st) p) (leaves st) ptrs) args,
              mpData := fst allocation,
              mNumCapacity := GetNewCapacity (mNumElements st + 1),
              internalDataSize := snd allocation\<rparr>)"
  using assms
  by (simp add: push_back_def DoGrow_def DoReallocate_eq Let_def column_types_def)

lemma push_back_nogrow_Done:
  assumes "\<not> mNumElements st + 1 > mNumCapacity st"
  shows "push_back h st args =
     Done (h, st\<lparr>mNumElements := mNumElements st + 1,
                 leaves := map2 (construct_at (unat (mNumElements st))) (leaves st) args\<rparr>)"
  using assms
  by (simp add: push_back_def DoGrow_def Let_def)


lemmas eval_defs = push_back_def DoGrow_def DoReallocate_eq Let_def column_types_def
  ex_empty_def TupleVecImpl_init_def GetNewCapacity_def
  CalculatAllocationOffset_def CalculateAllocationSize_def allocate_def deallocate_def
  ex_heap0_def fresh_pick_def relocated_def construct_at_def

text \<open>
  Claim C1. \<open>DoGrow\<close> passes the required capacity, not the old capacity, to
  \<open>GetNewCapacity\<close>: a growing \<open>push_back\<close> ends with capacity \<open>2 \<times> (size + 1)\<close>
  (\<open>push_back_capacity\<close>), while \<open>resize\<close> grows to \<open>max(2 \<times> oldCapacity, n)\<close>
  (\<open>resize_capacity\<close>). Starting from an empty container the capacity is 2 after the first
  and second \<open>push_back\<close> and 6 after the third, where doubling from 1 gives 1, 2 and 4.
\<close>

theorem push_back_capacity_from_empty:
  "map_option (\<lambda>r. mNumCapacity (snd r)) (returned (push_back_all ex_heap0 ex_empty [[10]]))
     = Some 2
   \<and> map_option (\<lambda>r. mNumCapacity (snd r)) (returned (push_back_all ex_heap0 ex_empty [[10], [20]]))
     = Some 2
   \<and> map_option (\<lambda>r. mNumCapacity (snd r))
        (returned (push_back_all ex_heap0 ex_empty [[10], [20], [30]])) = Some 6
   \<and> map_option (\<lambda>r. rows (snd r))
        (returned (push_back_all ex_heap0 ex_empty [[10], [20], [30]]))
       = Some [[Obj 10], [Obj 20], [Obj 30]]"
  by (simp add: eval_defs rows_def upt_rec)


lemma DoReallocate_BadAlloc:
  "DoAllocate h (column_types st) requiredCapacity 0 = None \<Longrightarrow>
   DoReallocate h st oldNumElements requiredCapacity = BadAlloc (h, st)"
  by (simp add: DoReallocate_eq)

lemma push_back_BadAlloc:
  assumes "mNumElements st + 1 > mNumCapacity st"
      and "DoAllocate h (column_types st) (GetNewCapacity (mNumElements st + 1)) 0 = None"
  shows "push_back h st args = BadAlloc (h, st\<lparr>mNumElements := mNumElements st + 1\<rparr>)"
    and "push_back_uninitialized h st = BadAlloc (h, st\<lparr>mNumElements := mNumElements st + 1\<rparr>)"
    and "emplace_back h st args = BadAlloc (h, st\<lparr>mNumElements := mNumElements st + 1\<rparr>, None)"
  using assms
  by (simp_all add: DoReallocate_eq push_back_def push_back_uninitialized_def emplace_back_def
        DoGrow_def Let_def column_types_def)

lemma resize_BadAlloc:
  assumes "n > mNumElements st" "n > mNumCapacity st"
      and "DoAllocate h (column_types st) (max (GetNewCapacity (mNumCapacity st)) n) 0 = None"
  shows "resize h st n args = BadAlloc (h, st\<lparr>mNumElements := n\<rparr>)"
  using assms
  by (simp add: DoReallocate_eq resize_def Let_def column_types_def)

lemma reserve_BadAlloc:
  assumes "n > mNumCapacity st"
      and "DoAllocate h (column_types st) n 0 = None"
  shows "reserve h st n = BadAlloc (h, st)"
  using assms by (simp add: reserve_def DoConditionalReallocate_def DoReallocate_eq)

lemma insert_n_BadAlloc:
  assumes "validate_iterator st pos \<noteq> isf_none"
      and "mNumElements st + m > mNumCapacity st"
      and "DoAllocate h (column_types st)
             (max (GetNewCapacity (mNumCapacity st)) (mNumElements st + m)) 0 = None"
  shows "insert_n h st pos m args = BadAlloc (h, st\<lparr>mNumElements := mNumElements st + m\<rparr>, pos)"
  using assms by (simp add: insert_n_def Let_def column_types_def)

lemma validate_size_above_capacity:
  "n > mNumCapacity st \<Longrightarrow> \<not> validate (st\<lparr>mNumElements := n\<rparr>)"
  by (simp add: validate_def)

text \<open>
  What every growth operation leaves behind when the allocation in \<open>DoAllocate\<close> fails.
  The heap is as it was: nothing is freed, and capacity, allocation pointer, Leaf pointers
  and slots keep their values. \<open>DoReallocate\<close> and \<open>reserve\<close> leave the whole container as it
  was. \<open>push_back\<close>, \<open>push_back_uninitialized\<close>, \<open>emplace_back\<close>, \<open>resize\<close> and \<open>insert\<close> store
  the new size before they grow, so the container they leave holds the new size, above its
  capacity, and \<open>validate()\<close> rejects it.
\<close>

lemma failed_allocation:
  "(DoAllocate h (column_types st) requiredCapacity 0 = None \<longrightarrow>
       DoReallocate h st oldNumElements requiredCapacity = BadAlloc (h, st))
   \<and> (n > mNumCapacity st \<longrightarrow> DoAllocate h (column_types st) n 0 = None \<longrightarrow>
        reserve h st n = BadAlloc (h, st))
   \<and> (mNumElements st + 1 > mNumCapacity st \<longrightarrow>
        DoAllocate h (column_types st) (GetNewCapacity (mNumElements st + 1)) 0 = None \<longrightarrow>
          push_back h st args = BadAlloc (h, st\<lparr>mNumElements := mNumElements st + 1\<rparr>)
        \<and> push_back_uninitialized h st = BadAlloc (h, st\<lparr>mNumElements := mNumElements st + 1\<rparr>)
        \<and> emplace_back h st args
            = BadAlloc (h, st\<lparr>mNumElements := mNumElements st + 1\<rparr>, None)
        \<and> \<not> validate (st\<lparr>mNumElements := mNumElements st + 1\<rparr>))
   \<and> (n > mNumElements st \<longrightarrow> n > mNumCapacity st \<longrightarrow>
        DoAllocate h (column_types st) (max (GetNewCapacity (mNumCapacity st)) n) 0 = None \<longrightarrow>
          resize h st n args = BadAlloc (h, st\<lparr>mNumElements := n\<rparr>)
        \<and> \<not> validate (st\<lparr>mNumElements := n\<rparr>))
   \<and> (validate_iterator st pos \<noteq> isf_none \<longrightarrow> mNumElements st + m > mNumCapacity st \<longrightarrow>
        DoAllocate h (column_types st)
          (max (GetNewCapacity (mNumCapacity st)) (mNumElements st + m)) 0 = None \<longrightarrow>
          insert_n h st pos m args = BadAlloc (h, st\<lparr>mNumElements := mNumElements st + m\<rparr>, pos)
        \<and> \<not> validate (st\<lparr>mNumElements := mNumElements st + m\<rparr>))"
proof (intro conjI impI)
qed (simp_all add: DoReallocate_BadAlloc reserve_BadAlloc push_back_BadAlloc resize_BadAlloc
       insert_n_BadAlloc validate_size_above_capacity)

lemma DoAllocate_ex_failing: "cap \<noteq> 0 \<Longrightarrow> DoAllocate ex_failing_heap Ts cap 0 = None"
  by (simp add: DoAllocate_eq allocate_def ex_failing_heap_def failing_pick_def)

lemma ex_vec2_full:
  "mNumElements ex_vec2 + 1 > mNumCapacity ex_vec2"
  "(7 :: size_type) > mNumElements ex_vec2" "7 > mNumCapacity ex_vec2"
  "mNumElements ex_vec2 + 1 = 5" "mNumElements ex_vec2 = 4" "mNumCapacity ex_vec2 = 4"
  "(9 :: size_type) > mNumCapacity ex_vec2"
  "mNumElements ex_vec2 + 2 > mNumCapacity ex_vec2"
  "mNumElements ex_vec2 + 2 = 6"
  by (simp_all add: ex_vec2_def)

lemma ex_vec2_alloc_fails:
  "DoAllocate ex_failing_heap (column_types ex_vec2)
             (GetNewCapacity (mNumElements ex_vec2 + 1)) 0 = None"
  "DoAllocate ex_failing_heap (column_types ex_vec2) 10 0 = None"
  "DoAllocate ex_failing_heap (column_types ex_vec2)
       (max (GetNewCapacity (mNumCapacity ex_vec2)) 7) 0 = None"
  "DoAllocate ex_failing_heap (column_types ex_vec2) 9 0 = None"
  "DoAllocate ex_failing_heap (column_types ex_vec2)
       (max (GetNewCapacity (mNumCapacity ex_vec2)) (mNumElements ex_vec2 + 2)) 0 = None"
  by (simp_all add: DoAllocate_ex_failing GetNewCapacity_def ex_vec2_def)

lemma validate_ex_vec2: "validate ex_vec2"
  by (simp add: validate_def ex_vec2_def)

text \<open>
  Claim C2. A container of four rows filled to its capacity of 4, on a heap whose allocator
  fails. \<open>DoReallocate\<close> and \<open>reserve\<close> leave the heap and the container as they were. After
  the failed \<open>push_back\<close> the heap, capacity, pointers and slots are as they were, but the
  size is 5, not the 4 before the call: it is above the capacity, and \<open>validate()\<close>, which
  accepted the container before the call, rejects it. \<open>resize\<close> and \<open>insert\<close> leave the new
  size in the same way (7 and 6).
\<close>

theorem failed_push_back_size:
  "mNumElements ex_vec2 = 4 \<and> mNumCapacity ex_vec2 = 4 \<and> validate ex_vec2
   \<and> push_back ex_failing_heap ex_vec2 [9, 9]
       = BadAlloc (ex_failing_heap, ex_vec2\<lparr>mNumElements := 5\<rparr>)
   \<and> mNumElements (ex_vec2\<lparr>mNumElements := 5\<rparr>) \<noteq> mNumElements ex_vec2
   \<and> mNumElements (ex_vec2\<lparr>mNumElements := 5\<rparr>) > mNumCapacity (ex_vec2\<lparr>mNumElements := 5\<rparr>)
   \<and> \<not> validate (ex_vec2\<lparr>mNumElements := 5\<rparr>)
   \<and> push_back_uninitialized ex_failing_heap ex_vec2
       = BadAlloc (ex_failing_heap, ex_vec2\<lparr>mNumElements := 5\<rparr>)
   \<and> emplace_back ex_failing_heap ex_vec2 [9, 9]
       = BadAlloc (ex_failing_heap, ex_vec2\<lparr>mNumElements := 5\<rparr>, None)
   \<and> resize ex_failing_heap ex_vec2 7 [9, 9]
       = BadAlloc (ex_failing_heap, ex_vec2\<lparr>mNumElements := 7\<rparr>)
   \<and> insert_n ex_failing_heap ex_vec2 (iterator_at ex_vec2 1) 2 [9, 9]
       = BadAlloc (ex_failing_heap, ex_vec2\<lparr>mNumElements := 6\<rparr>, iterator_at ex_vec2 1)
   \<and> reserve ex_failing_heap ex_vec2 9 = BadAlloc (ex_failing_heap, ex_vec2)
   \<and> DoReallocate ex_failing_heap ex_vec2 4 10 = BadAlloc (ex_failing_heap, ex_vec2)"
  using failed_allocation [where h = ex_failing_heap and st = ex_vec2 and requiredCapacity = 10
           and oldNumElements = 4 and args = "[9, 9]" and n = 7 and m = 2
           and pos = "iterator_at ex_vec2 1"]
        failed_allocation [where h = ex_failing_heap and st = ex_vec2 and n = 9]
        ex_vec2_full ex_vec2_alloc_fails valid_ex_vec2(1) validate_ex_vec2
  by simp


subsection \<open>shrink\_to\_fit\<close>

lemma variadicAnd_all: "\<forall>b \<in> set bs. b \<Longrightarrow> variadicAnd bs"
  by (induction bs rule: variadicAnd.induct) auto

lemma validate_pair_begin_end: "validate_iterator_pair (tv_begin st) (tv_end st)"
  by (simp add: validate_iterator_pair_def tv_begin_def tv_end_def iterator_at_def variadicAnd_all)

lemma length_leaf_offsets [simp]: "length (leaf_offsets Ts cap off) = length Ts"
  by (induction Ts arbitrary: off) simp_all

lemma DoAllocate_Some:
  assumes "DoAllocate h Ts cap 0 = Some (h1, (p, tsize), ptrs)" "cap \<noteq> 0"
  shows "allocate h tsize = Some (p, h1)" "tsize = GetTotalAllocationSize Ts cap 0"
    "ptrs = map (\<lambda>off. p + unat off) (leaf_offsets Ts cap 0)" "length ptrs = length Ts"
  using assms by (auto simp: DoAllocate_eq split: option.splits)

lemma init_leaves_length [simp]: "length (leaves (TupleVecImpl_init Ts)) = length Ts"
  by (simp add: TupleVecImpl_init_def)

lemma column_types_init [simp]: "column_types (TupleVecImpl_init Ts :: 'v TupleVecImpl) = Ts"
  by (simp add: TupleVecImpl_init_def column_types_def o_def)

lemma DoInitFromIterator_grow:
  assumes nz: "mNumElements st \<noteq> 0"
      and al: "DoAllocate h (column_types st) (mNumElements st) 0 = Some (h1, allocation, ptrs)"
  shows "DoInitFromIterator h (TupleVecImpl_init (column_types st)) st (tv_begin st) (tv_end st)
       = Done (deallocate h1 0 0,
           \<lparr>mpData = fst allocation, mNumElements = mNumElements st,
            mNumCapacity = mNumElements st, internalDataSize = snd allocation,
            leaves = map2 (\<lambda>leaf p. relocated leaf (mNumElements st) p) (leaves st) ptrs\<rparr>)"
proof -
  obtain p tsize where a: "allocation = (p, tsize)" by (cases allocation)
  have len: "length ptrs = length (leaves st)"
    using DoAllocate_Some(4) [OF al [unfolded a] nz] by (simp add: column_types_def)
  have gt: "mNumElements st > 0" using nz by (simp add: word_greater_zero_iff)
  have d: "iter_diff (tv_end st) (tv_begin st) = mNumElements st"
    "mIndex (tv_begin st) = 0" "mIndex (tv_end st) = mNumElements st"
    by (simp_all add: tv_end_def tv_begin_def iterator_at_def tv_size_def iter_diff_def)
  have l: "map2 (\<lambda>leaf src. leaf\<lparr>leaf_mem :=
              std_uninitialized_move_into (leaf_mem src) 0 (unat (mNumElements st)) (leaf_mem leaf) 0\<rparr>)
            (map2 (\<lambda>leaf p. relocated leaf 0 p)
               (leaves (TupleVecImpl_init (column_types st) :: 'a TupleVecImpl)) ptrs)
            (leaves st)
         = map2 (\<lambda>leaf p. relocated leaf (mNumElements st) p) (leaves st) ptrs"
  proof (rule nth_equalityI)
    show "length (map2 (\<lambda>leaf src. leaf\<lparr>leaf_mem :=
              std_uninitialized_move_into (leaf_mem src) 0 (unat (mNumElements st)) (leaf_mem leaf) 0\<rparr>)
            (map2 (\<lambda>leaf p. relocated leaf 0 p)
               (leaves (TupleVecImpl_init (column_types st) :: 'a TupleVecImpl)) ptrs)
            (leaves st))
         = length (map2 (\<lambda>leaf p. relocated leaf (mNumElements st) p) (leaves st) ptrs)"
      using len by (simp add: column_types_def)
  next
    fix i assume "i < length (map2 (\<lambda>leaf src. leaf\<lparr>leaf_mem :=
              std_uninitialized_move_into (leaf_mem src) 0 (unat (mNumElements st)) (leaf_mem leaf) 0\<rparr>)
            (map2 (\<lambda>leaf p. relocated leaf 0 p)
               (leaves (TupleVecImpl_init (column_types st) :: 'a TupleVecImpl)) ptrs)
            (leaves st))"
    then have i: "i < length (leaves st)" using len by (simp add: column_types_def)
    have raw: "(\<lambda>k. Raw) = (raw_mem :: 'a mem)" by (simp add: raw_mem_def)
    show "map2 (\<lambda>leaf src. leaf\<lparr>leaf_mem :=
              std_uninitialized_move_into (leaf_mem src) 0 (unat (mNumElements st)) (leaf_mem leaf) 0\<rparr>)
            (map2 (\<lambda>leaf p. relocated leaf 0 p)
               (leaves (TupleVecImpl_init (column_types st) :: 'a TupleVecImpl)) ptrs)
            (leaves st) ! i
         = map2 (\<lambda>leaf p. relocated leaf (mNumElements st) p) (leaves st) ptrs ! i"
      using i len
      by (simp add: column_types_def TupleVecImpl_init_def relocated_def raw move_into_raw)
  qed
  show ?thesis
    using gt al
    by (simp add: DoInitFromIterator_def validate_pair_begin_end d DoConditionalReallocate_def
          DoReallocate_eq Let_def l)
       (simp add: TupleVecImpl_init_def)
qed


lemma swap_leaves:
  "length xs = length ys \<Longrightarrow>
   map2 (\<lambda>a b. a\<lparr>leaf_mpData := leaf_mpData b, leaf_mem := leaf_mem b\<rparr>) xs
        (map2 (\<lambda>leaf p. relocated leaf n p) xs ys)
   = map2 (\<lambda>leaf p. relocated leaf n p) xs ys"
  by (intro nth_equalityI) (simp_all add: relocated_def)

lemma shrink_to_fit_grow:
  assumes nz: "mNumElements st \<noteq> 0"
      and al: "DoAllocate h (column_types st) (mNumElements st) 0 = Some (h1, allocation, ptrs)"
  shows "shrink_to_fit h st = Done (destructor (deallocate h1 0 0) st, shrunk st allocation ptrs)"
proof -
  obtain p tsize where a: "allocation = (p, tsize)" by (cases allocation)
  have len: "length (leaves st) = length ptrs"
    using DoAllocate_Some(4) [OF al [unfolded a] nz] by (simp add: column_types_def)
  show ?thesis
    by (simp add: shrink_to_fit_def DoInitFromIterator_grow [OF nz al] swap_def shrunk_def
          destructor_def swap_leaves [OF len])
qed

lemma shrink_to_fit_fail:
  assumes nz: "mNumElements st \<noteq> 0"
      and al: "DoAllocate h (column_types st) (mNumElements st) 0 = None"
  shows "shrink_to_fit h st = BadAlloc (h, st)"
proof -
  have gt: "mNumElements st > 0" using nz by (simp add: word_greater_zero_iff)
  have d: "iter_diff (tv_end st) (tv_begin st) = mNumElements st"
    "mIndex (tv_begin st) = 0" "mIndex (tv_end st) = mNumElements st"
    by (simp_all add: tv_end_def tv_begin_def iterator_at_def tv_size_def iter_diff_def)
  have c: "mNumCapacity (TupleVecImpl_init (column_types st) :: 'a TupleVecImpl) = 0"
    by (simp add: TupleVecImpl_init_def)
  show ?thesis
    using gt al
    by (simp add: shrink_to_fit_def DoInitFromIterator_def validate_pair_begin_end d c
          DoConditionalReallocate_def DoReallocate_eq Let_def)
qed

lemma shrink_to_fit_empty:
  assumes z: "mNumElements st = 0"
  shows "shrink_to_fit h st = Done (destructor h st, emptied st)"
proof -
  have d: "iter_diff (tv_end st) (tv_begin st) = 0"
    "mIndex (tv_begin st) = 0" "mIndex (tv_end st) = 0"
    using z by (simp_all add: tv_end_def tv_begin_def iterator_at_def tv_size_def iter_diff_def)
  have m: "std_uninitialized_move_into src 0 0 dst 0 = dst" for src dst :: "'a mem"
    by (simp add: std_uninitialized_move_into_def)
  have l: "map2 (\<lambda>a b. a\<lparr>leaf_mpData := leaf_mpData b, leaf_mem := leaf_mem b\<rparr>) (leaves st)
          (map2 (\<lambda>leaf src. leaf)
             (map (\<lambda>T. \<lparr>leaf_type = T, leaf_mpData = 0, leaf_mem = raw_mem\<rparr>) (column_types st))
             (leaves st))
       = map (\<lambda>leaf. leaf\<lparr>leaf_mpData := 0, leaf_mem := raw_mem\<rparr>) (leaves st)"
    by (intro nth_equalityI) (simp_all add: column_types_def)
  show ?thesis
    using z
    by (simp add: shrink_to_fit_def DoInitFromIterator_def validate_pair_begin_end d m
          DoConditionalReallocate_def Let_def swap_def emptied_def destructor_def
          TupleVecImpl_init_def l)
qed


lemma rows_shrunk:
  assumes "length (leaves st) = length ptrs"
  shows "rows (shrunk st allocation ptrs) = rows st"
    and "map leaf_mpData (leaves (shrunk st allocation ptrs)) = ptrs"
proof -
  have "map (\<lambda>leaf. leaf_mem leaf k)
            (map2 (\<lambda>leaf p. relocated leaf (mNumElements st) p) (leaves st) ptrs)
        = map (\<lambda>leaf. leaf_mem leaf k) (leaves st)" if "k < unat (mNumElements st)" for k
    using that assms by (intro nth_equalityI) (simp_all add: relocated_def)
  then show "rows (shrunk st allocation ptrs) = rows st"
    by (simp add: rows_def shrunk_def)
  show "map leaf_mpData (leaves (shrunk st allocation ptrs)) = ptrs"
    using assms by (intro nth_equalityI) (simp_all add: shrunk_def relocated_def)
qed

text \<open>
  Claim C8. On a container whose capacity equals its size, \<open>shrink_to_fit\<close> keeps the size,
  the capacity and every row. If the container is empty nothing is allocated and it ends
  with null pointers. If it is not empty a new block is allocated for the same capacity,
  every column is moved into it and the old block is freed: the allocation pointer and the
  Leaf pointers are those of the new block, which differ from the old ones as the old block
  is still live when the new one is allocated. If that allocation fails the container is
  unchanged.
\<close>

theorem shrink_to_fit_at_capacity:
  assumes eq: "mNumCapacity st = mNumElements st"
  shows
   "(mNumElements st = 0 \<longrightarrow>
       (\<exists>st'. shrink_to_fit h st = Done (destructor h st, st')
          \<and> mNumElements st' = 0 \<and> mNumCapacity st' = 0 \<and> rows st' = []
          \<and> mpData st' = 0 \<and> map leaf_mpData (leaves st') = map (\<lambda>leaf. 0) (leaves st)
          \<and> (mpData st = 0 \<longrightarrow> destructor h st = h)))
    \<and> (mNumElements st \<noteq> 0 \<longrightarrow>
        (DoAllocate h (column_types st) (mNumElements st) 0 = None \<longrightarrow>
           shrink_to_fit h st = BadAlloc (h, st))
      \<and> (\<forall>h1 p tsize ptrs.
           DoAllocate h (column_types st) (mNumElements st) 0 = Some (h1, (p, tsize), ptrs) \<longrightarrow>
             allocate h tsize = Some (p, h1)
           \<and> (\<exists>st'. shrink_to_fit h st = Done (destructor (deallocate h1 0 0) st, st')
                \<and> mpData st' = p \<and> map leaf_mpData (leaves st') = ptrs
                \<and> internalDataSize st' = tsize
                \<and> mNumElements st' = mNumElements st \<and> mNumCapacity st' = mNumCapacity st
                \<and> rows st' = rows st
                \<and> (p \<notin> set (live h) \<longrightarrow> mpData st \<in> set (live h) \<longrightarrow>
                      mpData st' \<noteq> mpData st))))"
proof (intro conjI impI allI)
  assume z: "mNumElements st = 0"
  have "shrink_to_fit h st = Done (destructor h st, emptied st)"
    using z by (rule shrink_to_fit_empty)
  moreover have "mNumElements (emptied st) = 0" "mNumCapacity (emptied st) = 0"
    "rows (emptied st) = []" "mpData (emptied st) = 0"
    "map leaf_mpData (leaves (emptied st)) = map (\<lambda>leaf. 0) (leaves st)"
    using z by (simp_all add: emptied_def rows_def)
  moreover have "mpData st = 0 \<longrightarrow> destructor h st = h" by (simp add: destructor_def)
  ultimately show "\<exists>st'. shrink_to_fit h st = Done (destructor h st, st')
          \<and> mNumElements st' = 0 \<and> mNumCapacity st' = 0 \<and> rows st' = []
          \<and> mpData st' = 0 \<and> map leaf_mpData (leaves st') = map (\<lambda>leaf. 0) (leaves st)
          \<and> (mpData st = 0 \<longrightarrow> destructor h st = h)"
    by - (rule exI [of _ "emptied st"], simp)
next
  assume "mNumElements st \<noteq> 0" "DoAllocate h (column_types st) (mNumElements st) 0 = None"
  then show "shrink_to_fit h st = BadAlloc (h, st)" by (rule shrink_to_fit_fail)
next
  fix h1 p tsize ptrs
  assume nz: "mNumElements st \<noteq> 0"
    and al: "DoAllocate h (column_types st) (mNumElements st) 0 = Some (h1, (p, tsize), ptrs)"
  show "allocate h tsize = Some (p, h1)" using al nz by (rule DoAllocate_Some(1))
  have len: "length (leaves st) = length ptrs"
    using DoAllocate_Some(4) [OF al nz] by (simp add: column_types_def)
  let ?st' = "shrunk st (p, tsize) ptrs"
  have "shrink_to_fit h st = Done (destructor (deallocate h1 0 0) st, ?st')"
    using nz al by (rule shrink_to_fit_grow)
  moreover have "mpData ?st' = p" "internalDataSize ?st' = tsize"
    "mNumElements ?st' = mNumElements st" "mNumCapacity ?st' = mNumCapacity st"
    using eq by (simp_all add: shrunk_def)
  moreover have "rows ?st' = rows st" "map leaf_mpData (leaves ?st') = ptrs"
    using len by (rule rows_shrunk)+
  moreover have "p \<notin> set (live h) \<longrightarrow> mpData st \<in> set (live h) \<longrightarrow> mpData ?st' \<noteq> mpData st"
    by (auto simp: shrunk_def)
  ultimately show "\<exists>st'. shrink_to_fit h st = Done (destructor (deallocate h1 0 0) st, st')
                \<and> mpData st' = p \<and> map leaf_mpData (leaves st') = ptrs
                \<and> internalDataSize st' = tsize
                \<and> mNumElements st' = mNumElements st \<and> mNumCapacity st' = mNumCapacity st
                \<and> rows st' = rows st
                \<and> (p \<notin> set (live h) \<longrightarrow> mpData st \<in> set (live h) \<longrightarrow>
                      mpData st' \<noteq> mpData st)"
    by - (rule exI [of _ "shrunk st (p, tsize) ptrs"], simp)
qed

lemma DoAllocate_ex_vec2:
  "DoAllocate ex_heap (column_types ex_vec2) (mNumElements ex_vec2) 0
     = Some (ex_heap\<lparr>live := [262208, 4096]\<rparr>, (262208, 20), [262208, 262224])"
  by (simp add: ex_heap_def ex_vec2_def column_types_def allocate_def fresh_pick_def Let_def
        CalculatAllocationOffset_def CalculateAllocationSize_def)

text \<open>
  \<open>shrink_to_fit\<close> on four rows in an allocation for four: a block is allocated at a new
  address, the allocation pointer and both Leaf pointers change, and the old block is freed.
\<close>

theorem shrink_to_fit_counterexample:
  "mNumCapacity ex_vec2 = mNumElements ex_vec2
   \<and> mpData ex_vec2 = 4096 \<and> map leaf_mpData (leaves ex_vec2) = [4096, 4112]
   \<and> map_option (\<lambda>r. mpData (snd r)) (returned (shrink_to_fit ex_heap ex_vec2)) = Some 262208
   \<and> map_option (\<lambda>r. map leaf_mpData (leaves (snd r))) (returned (shrink_to_fit ex_heap ex_vec2))
       = Some [262208, 262224]
   \<and> map_option (\<lambda>r. live (fst r)) (returned (shrink_to_fit ex_heap ex_vec2)) = Some [262208]
   \<and> live ex_heap = [4096]"
proof -
  have nz: "mNumElements ex_vec2 \<noteq> 0" by (simp add: ex_vec2_def)
  have len: "length (leaves ex_vec2) = length [262208 :: nat, 262224]" by (simp add: ex_vec2_def)
  have "live (destructor (deallocate (ex_heap\<lparr>live := [262208, 4096]\<rparr>) 0 0) ex_vec2) = [262208]"
    by (simp add: destructor_def deallocate_def ex_vec2_def)
  then show ?thesis
    by (simp add: shrink_to_fit_grow [OF nz DoAllocate_ex_vec2] rows_shrunk(2) [OF len])
       (simp add: shrunk_def ex_vec2_def ex_heap_def)
qed

theorem shrink_to_fit_at_capacity_witness:
  "mNumCapacity ex_vec2 = mNumElements ex_vec2 \<and> mNumElements ex_vec2 \<noteq> 0
   \<and> (\<exists>st'. shrink_to_fit ex_heap ex_vec2 =
          Done (destructor (deallocate (ex_heap\<lparr>live := [262208, 4096]\<rparr>) 0 0) ex_vec2, st')
        \<and> mpData st' = 262208 \<and> map leaf_mpData (leaves st') = [262208, 262224]
        \<and> mNumElements st' = 4 \<and> mNumCapacity st' = 4
        \<and> rows st' = [[Obj 1, Obj 5], [Obj 2, Obj 6], [Obj 3, Obj 7], [Obj 4, Obj 8]])
   \<and> mNumCapacity (ex_empty :: int TupleVecImpl) = mNumElements ex_empty
   \<and> mNumElements ex_empty = 0
   \<and> (\<exists>st'. shrink_to_fit ex_heap0 ex_empty = Done (ex_heap0, st') \<and> mpData st' = 0
         \<and> mNumCapacity st' = 0)"
proof -
  have e: "mNumCapacity ex_vec2 = mNumElements ex_vec2" and nz: "mNumElements ex_vec2 \<noteq> 0"
    and v: "mNumElements ex_vec2 = 4" "mNumCapacity ex_vec2 = 4"
    by (simp_all add: ex_vec2_def)
  have e0: "mNumCapacity ex_empty = mNumElements ex_empty" and z0: "mNumElements ex_empty = 0"
    and m0: "mpData ex_empty = 0"
    by (simp_all add: ex_empty_def TupleVecImpl_init_def)
  note T = shrink_to_fit_at_capacity [OF e, of ex_heap, THEN conjunct2, THEN mp, OF nz,
      THEN conjunct2, rule_format, OF DoAllocate_ex_vec2, THEN conjunct2]
  from T obtain st' where a: "shrink_to_fit ex_heap ex_vec2 =
          Done (destructor (deallocate (ex_heap\<lparr>live := [262208, 4096]\<rparr>) 0 0) ex_vec2, st')
      \<and> mpData st' = 262208 \<and> map leaf_mpData (leaves st') = [262208, 262224]
      \<and> internalDataSize st' = 20
      \<and> mNumElements st' = mNumElements ex_vec2 \<and> mNumCapacity st' = mNumCapacity ex_vec2
      \<and> rows st' = rows ex_vec2
      \<and> (262208 \<notin> set (live ex_heap) \<longrightarrow> mpData ex_vec2 \<in> set (live ex_heap) \<longrightarrow>
            mpData st' \<noteq> mpData ex_vec2)" ..
  note U = shrink_to_fit_at_capacity [OF e0, of ex_heap0, THEN conjunct1, THEN mp, OF z0]
  from U obtain st'' where b: "shrink_to_fit ex_heap0 ex_empty = Done (destructor ex_heap0 ex_empty, st'')
      \<and> mNumElements st'' = 0 \<and> mNumCapacity st'' = 0 \<and> rows st'' = []
      \<and> mpData st'' = 0 \<and> map leaf_mpData (leaves st'') = map (\<lambda>leaf. 0) (leaves ex_empty)
      \<and> (mpData ex_empty = 0 \<longrightarrow> destructor ex_heap0 ex_empty = ex_heap0)" ..
  have d0: "destructor ex_heap0 ex_empty = ex_heap0" using b m0 by simp
  have A: "\<exists>st'. shrink_to_fit ex_heap ex_vec2 =
          Done (destructor (deallocate (ex_heap\<lparr>live := [262208, 4096]\<rparr>) 0 0) ex_vec2, st')
        \<and> mpData st' = 262208 \<and> map leaf_mpData (leaves st') = [262208, 262224]
        \<and> mNumElements st' = 4 \<and> mNumCapacity st' = 4
        \<and> rows st' = [[Obj 1, Obj 5], [Obj 2, Obj 6], [Obj 3, Obj 7], [Obj 4, Obj 8]]"
    by (rule exI [of _ st']) (simp add: a v rows_ex_vec2)
  have B: "\<exists>st'. shrink_to_fit ex_heap0 ex_empty = Done (ex_heap0, st') \<and> mpData st' = 0
         \<and> mNumCapacity st' = 0"
    by (rule exI [of _ st'']) (simp add: b d0)
  from A B e nz e0 z0 show ?thesis by (intro conjI)
qed


end
